theory Spec2Isabelle
  imports Complex_Main "HOL-Library.Word" "HOL-Library.Multiset" "HOL-Library.Product_Lexorder"
begin

unbundle bit_operations_syntax

section \<open>The host engine, as the scheduler observes it\<close>

text \<open>
  The scheduler of \<^verbatim>\<open>EnhancedTickSystem.cpp\<close> never owns the objects it ticks: it holds
  \<^verbatim>\<open>UObject*\<close> pointers and asks the engine about them. An object is a number, a pointer to
  one is an option (\<open>None\<close> is \<^verbatim>\<open>nullptr\<close>), a class is a number. Everything the code reads
  from the engine is a field of the record \<open>Host\<close>; it is an input of every operation.
  World coordinates, durations and the clock are floating point in the source and real
  numbers here. The rounding of the arithmetic is not modelled; the conversion of a
  distance to \<^verbatim>\<open>float\<close> is, where the result is compared with a bound that the caller
  gives, in \<^verbatim>\<open>GetNearbyEntities\<close>.
\<close>

type_synonym UObject = nat
type_synonym UObjectPtr = "nat option"
type_synonym UClass = nat

datatype ETickingGroup =
  TG_PrePhysics | TG_StartPhysics | TG_DuringPhysics | TG_EndPhysics
  | TG_PostPhysics | TG_PostUpdateWork | TG_LastDemotable

datatype ObjectKind = ActorComponentKind | ActorKind | OtherKind

record FVector =
  X :: real
  Y :: real
  Z :: real


text \<open>
  \<^verbatim>\<open>FVector::Distance\<close> is the engine's: the Euclidean distance, here without the rounding
  of its arithmetic.
\<close>

definition Distance :: "FVector \<Rightarrow> FVector \<Rightarrow> real" where
  "Distance a b = sqrt ((X a - X b)\<^sup>2 + (Y a - Y b)\<^sup>2 + (Z a - Z b)\<^sup>2)"



record Host =
  ObjectIsValid :: "UObject \<Rightarrow> bool"
  KindOf :: "UObject \<Rightarrow> ObjectKind"
  GetClass :: "UObject \<Rightarrow> UClass"
  ClassIsValid :: "UClass \<Rightarrow> bool"
  GetName :: "UClass \<Rightarrow> string"
  NameContains :: "UClass \<Rightarrow> string \<Rightarrow> bool"
  ChildOfSceneComponent :: "UClass \<Rightarrow> bool"
  ChildOfPrimitiveComponent :: "UClass \<Rightarrow> bool"
  ChildOfCharacterMovement :: "UClass \<Rightarrow> bool"
  ChildOfAIPerception :: "UClass \<Rightarrow> bool"
  TickGroupOf :: "UObject \<Rightarrow> ETickingGroup"
  LocationOf :: "UObject \<Rightarrow> FVector"
  IsActive :: "UObject \<Rightarrow> bool"
  IsActorTickEnabled :: "UObject \<Rightarrow> bool"
  CurrentTime :: real
  NumberOfWorkerThreadsToSpawn :: int
  MeasuredSeconds :: "UClass \<Rightarrow> real"

text \<open>\<^verbatim>\<open>IsValid(Object)\<close>: false for a null pointer.\<close>

definition IsValid :: "Host \<Rightarrow> UObjectPtr \<Rightarrow> bool" where
  "IsValid h p = (case p of None \<Rightarrow> False | Some n \<Rightarrow> ObjectIsValid h n)"

section \<open>Batch flags\<close>

text \<open>\<^verbatim>\<open>enum class ETickBatchFlags : uint8\<close>, a bit mask.\<close>

type_synonym ETickBatchFlags = "8 word"

definition FlagNone :: ETickBatchFlags where "FlagNone = 0"
definition UseParallel :: ETickBatchFlags where "UseParallel = 1"
definition CacheHot :: ETickBatchFlags where "CacheHot = 2"
definition Conditional :: ETickBatchFlags where "Conditional = 4"
definition HighPrio :: ETickBatchFlags where "HighPrio = 8"
definition LowPrio :: ETickBatchFlags where "LowPrio = 16"
definition SpatialAware :: ETickBatchFlags where "SpatialAware = 32"
definition StateDependent :: ETickBatchFlags where "StateDependent = 64"

definition EnumHasAnyFlags :: "ETickBatchFlags \<Rightarrow> ETickBatchFlags \<Rightarrow> bool" where
  "EnumHasAnyFlags f c = (f AND c \<noteq> 0)"

section \<open>Entity descriptors and type batches\<close>

text \<open>
  The per-entity callable is one of the two lambdas that
  \<^verbatim>\<open>ProcessDeferredOperationsImpl\<close> binds, each capturing the pointer it was built from;
  \<open>None\<close> is the empty \<^verbatim>\<open>TFunction\<close> of a default-constructed descriptor.
\<close>

datatype TickLambda = ComponentLambda UObjectPtr | ActorLambda UObjectPtr

record FTickEntityData =
  Object :: UObjectPtr
  TickFunction :: "TickLambda option"
  Position :: FVector
  SpatialBucketId :: "16 word"
  Priority :: "8 word"
  bEnabled :: bool

definition GetDistance :: "FTickEntityData \<Rightarrow> FTickEntityData \<Rightarrow> real" where
  "GetDistance a b = Distance (Position a) (Position b)"

text \<open>
  The batch callables of the source: the generic one and the character-movement one of
  \<^verbatim>\<open>DetermineBestTickFunction\<close>, the actor one of the deferred flush, and the perception one
  of \<^verbatim>\<open>OptimizeAIPerceptionBatch\<close>.
\<close>

datatype BatchLambda =
  GenericBatchTick | CharacterMovementBatchTick | ActorBatchTick | AIPerceptionBatchTick

record FComponentTypeBatch =
  TypeName :: string
  Flags :: ETickBatchFlags
  BatchLockValid :: bool
  TickEntities :: "FTickEntityData list"
  BatchTickFunction :: "BatchLambda option"
  TickGroup :: ETickingGroup
  AverageTickTimeNs :: real
  LastFrameTickCount :: int
  bSortByCacheLocality :: bool

definition CanTickInParallel :: "FComponentTypeBatch \<Rightarrow> bool" where
  "CanTickInParallel b = EnumHasAnyFlags (Flags b) UseParallel"

text \<open>The test \<^verbatim>\<open>Entity.bEnabled && IsValid(Entity.Object)\<close> of every filter loop.\<close>

definition EntityIsActive :: "Host \<Rightarrow> FTickEntityData \<Rightarrow> bool" where
  "EntityIsActive h e = (bEnabled e \<and> IsValid h (Object e))"

subsection \<open>SortForCacheLocality\<close>

text \<open>\<^verbatim>\<open>TArray::RemoveAt\<close>: the later elements move down by one.\<close>

definition RemoveAt :: "nat \<Rightarrow> 'a list \<Rightarrow> 'a list" where
  "RemoveAt i xs = take i xs @ drop (Suc i) xs"

text \<open>
  The inner \<^verbatim>\<open>for\<close> loop: \<open>i\<close> is the index of the head of the list still to scan,
  \<open>best\<close> and \<open>bd\<close> are \<^verbatim>\<open>BestIdx\<close> and \<^verbatim>\<open>BestDistance\<close>.
\<close>

fun FindNearest :: "FTickEntityData \<Rightarrow> FTickEntityData list \<Rightarrow> nat \<Rightarrow> nat \<Rightarrow> real \<Rightarrow> nat" where
  "FindNearest lastAdded [] i best bd = best"
| "FindNearest lastAdded (v # vs) i best bd =
     (if GetDistance lastAdded v < bd
      then FindNearest lastAdded vs (Suc i) i (GetDistance lastAdded v)
      else FindNearest lastAdded vs (Suc i) best bd)"

definition BestIdx :: "FTickEntityData \<Rightarrow> FTickEntityData list \<Rightarrow> nat" where
  "BestIdx lastAdded valid =
     FindNearest lastAdded (tl valid) 1 0 (GetDistance lastAdded (hd valid))"

lemma FindNearest_bound:
  "best < i + length vs \<Longrightarrow> FindNearest l vs i best bd < i + length vs"
proof (induction vs arbitrary: i best bd)
  case Nil
  then show ?case by simp
next
  case (Cons v vs)
  have a: "FindNearest l vs (Suc i) i (GetDistance l v) < Suc i + length vs"
    by (rule Cons.IH) simp
  have b: "FindNearest l vs (Suc i) best bd < Suc i + length vs"
    by (rule Cons.IH) (use Cons.prems in simp)
  from a b show ?case by simp
qed

lemma BestIdx_bound: "valid \<noteq> [] \<Longrightarrow> BestIdx l valid < length valid"
  using FindNearest_bound [of 0 1 "tl valid" l "GetDistance l (hd valid)"]
  by (cases valid) (auto simp: BestIdx_def)

text \<open>
  The \<^verbatim>\<open>while (ValidEntities.Num() > 0)\<close> loop; \<open>srt\<close> is \<^verbatim>\<open>SortedEntities\<close>, which is
  never empty when the loop runs.
\<close>

function GreedyChain :: "FTickEntityData list \<Rightarrow> FTickEntityData list \<Rightarrow> FTickEntityData list" where
  "GreedyChain srt valid =
     (if valid = [] then srt
      else GreedyChain (srt @ [valid ! BestIdx (last srt) valid])
             (RemoveAt (BestIdx (last srt) valid) valid))"
  by pat_completeness auto
termination
proof (relation "measure (\<lambda>(s, v). length v)")
  show "wf (measure (\<lambda>(s, v). length v))" by simp
next
  fix srt valid :: "FTickEntityData list"
  assume "valid \<noteq> []"
  then have "BestIdx (last srt) valid < length valid" by (rule BestIdx_bound)
  then show "((srt @ [valid ! BestIdx (last srt) valid],
               RemoveAt (BestIdx (last srt) valid) valid), (srt, valid))
             \<in> measure (\<lambda>(s, v). length v)"
    by (simp add: RemoveAt_def)
qed

declare GreedyChain.simps [simp del]

definition SortForCacheLocality :: "Host \<Rightarrow> FComponentTypeBatch \<Rightarrow> FComponentTypeBatch" where
  "SortForCacheLocality h b =
     (if length (TickEntities b) < 2 then b
      else let ValidEntities = filter (EntityIsActive h) (TickEntities b)
           in if length ValidEntities < 2 then b
              else b\<lparr>TickEntities := GreedyChain [ValidEntities ! 0] (RemoveAt 0 ValidEntities)\<rparr>)"

subsection \<open>TickBatch and TickBatchParallel\<close>

text \<open>
  What a tick does to the world is the engine's business. The model records it: the
  descriptors on which a callable was invoked (the view handed to the batch callable on
  the sequential path, the descriptors whose own callable a shard invoked on the parallel
  path), and the update calls that reach the engine when the callables of the source run.
\<close>

datatype HostCall = TickComponentCall UObject | ActorTickCall UObject

text \<open>The two lambdas bound to \<^verbatim>\<open>EntityData.TickFunction\<close>.\<close>

fun RunTickLambda :: "Host \<Rightarrow> TickLambda \<Rightarrow> HostCall list" where
  "RunTickLambda h (ComponentLambda None) = []"
| "RunTickLambda h (ComponentLambda (Some c)) =
     (if IsActive h c then [TickComponentCall c] else [])"
| "RunTickLambda h (ActorLambda None) = []"
| "RunTickLambda h (ActorLambda (Some a)) = [ActorTickCall a]"

text \<open>The body of the generic batch callable for one entity.\<close>

definition GenericTickOne :: "Host \<Rightarrow> FTickEntityData \<Rightarrow> HostCall list" where
  "GenericTickOne h e =
     (case TickFunction e of
        Some f \<Rightarrow> RunTickLambda h f
      | None \<Rightarrow>
          (case Object e of
             None \<Rightarrow> []
           | Some n \<Rightarrow>
               if KindOf h n = ActorComponentKind then [TickComponentCall n]
               else if KindOf h n = ActorKind then [ActorTickCall n]
               else []))"

definition CharacterMovementTickOne :: "Host \<Rightarrow> FTickEntityData \<Rightarrow> HostCall list" where
  "CharacterMovementTickOne h e =
     (case Object e of
        None \<Rightarrow> []
      | Some n \<Rightarrow>
          if \<not> ChildOfCharacterMovement h (GetClass h n) \<or> \<not> bEnabled e then []
          else [TickComponentCall n])"

definition ActorTickOne :: "Host \<Rightarrow> FTickEntityData \<Rightarrow> HostCall list" where
  "ActorTickOne h e =
     (case Object e of
        None \<Rightarrow> []
      | Some n \<Rightarrow> if KindOf h n = ActorKind then [ActorTickCall n] else [])"

definition AIPerceptionTickOne :: "Host \<Rightarrow> FTickEntityData \<Rightarrow> HostCall list" where
  "AIPerceptionTickOne h e =
     (case Object e of
        None \<Rightarrow> []
      | Some n \<Rightarrow>
          if \<not> ChildOfAIPerception h (GetClass h n) \<or> \<not> bEnabled e then []
          else [TickComponentCall n])"

fun RunBatchLambda :: "Host \<Rightarrow> BatchLambda \<Rightarrow> FTickEntityData list \<Rightarrow> HostCall list" where
  "RunBatchLambda h GenericBatchTick es = concat (map (GenericTickOne h) es)"
| "RunBatchLambda h CharacterMovementBatchTick es = concat (map (CharacterMovementTickOne h) es)"
| "RunBatchLambda h ActorBatchTick es = concat (map (ActorTickOne h) es)"
| "RunBatchLambda h AIPerceptionBatchTick es = concat (map (AIPerceptionTickOne h) es)"

record TickOutcome =
  Batch :: FComponentTypeBatch
  Invoked :: "FTickEntityData list"
  HostCalls :: "HostCall list"

definition Untouched :: "FComponentTypeBatch \<Rightarrow> TickOutcome" where
  "Untouched b = \<lparr>Batch = b, Invoked = [], HostCalls = []\<rparr>"

text \<open>
  \<^verbatim>\<open>FComponentTypeBatch::TickBatch\<close>. \<open>elapsed\<close> is the time in seconds that the two
  readings of \<^verbatim>\<open>FPlatformTime::Seconds()\<close> around the batch callable differ by.
\<close>

definition TickBatch :: "Host \<Rightarrow> real \<Rightarrow> FComponentTypeBatch \<Rightarrow> TickOutcome" where
  "TickBatch h elapsed b =
     (let b0 = b\<lparr>LastFrameTickCount := 0\<rparr> in
      case BatchTickFunction b0 of
        None \<Rightarrow> Untouched b0
      | Some fn \<Rightarrow>
          if length (TickEntities b0) = 0 then Untouched b0
          else
            let b1 = (if bSortByCacheLocality b0 then SortForCacheLocality h b0 else b0) in
            if EnumHasAnyFlags (Flags b1) LowPrio \<and> CurrentTime h < 30 then Untouched b1
            else
              let ActiveEntities = filter (EntityIsActive h) (TickEntities b1) in
              if length ActiveEntities = 0 then Untouched b1
              else
                \<lparr>Batch = b1\<lparr>AverageTickTimeNs := elapsed * 1000000000 / real (length ActiveEntities),
                              LastFrameTickCount := int (length ActiveEntities)\<rparr>,
                 Invoked = ActiveEntities,
                 HostCalls = RunBatchLambda h fn ActiveEntities\<rparr>)"

text \<open>
  The thread-safety test of \<^verbatim>\<open>TickBatchParallel\<close>: a non-null object that is a primitive
  component, a scene component or a character movement component.
\<close>

definition MightBeUnsafe :: "Host \<Rightarrow> FTickEntityData \<Rightarrow> bool" where
  "MightBeUnsafe h e =
     (case Object e of
        None \<Rightarrow> False
      | Some n \<Rightarrow>
          ChildOfPrimitiveComponent h (GetClass h n) \<or> ChildOfSceneComponent h (GetClass h n)
          \<or> ChildOfCharacterMovement h (GetClass h n))"

text \<open>
  \<^verbatim>\<open>FMath::Max(1, FMath::CeilToInt(float(Num) / NumThreads))\<close>. The quotient is a real
  number here; in single precision it has the same ceiling as long as \<open>Num < 2 ^ 24\<close>.
\<close>

definition EntitiesPerThread :: "nat \<Rightarrow> int \<Rightarrow> int" where
  "EntitiesPerThread num NumThreads = max 1 \<lceil>real num / real_of_int NumThreads\<rceil>"

text \<open>
  The entities of the task of thread \<open>ThreadIdx\<close>: none when
  \<^verbatim>\<open>StartIdx >= EndIdx\<close>, else the view of \<^verbatim>\<open>EndIdx - StartIdx\<close> entities from \<^verbatim>\<open>StartIdx\<close>.
\<close>

definition Shard :: "FTickEntityData list \<Rightarrow> int \<Rightarrow> int \<Rightarrow> FTickEntityData list" where
  "Shard ActiveEntities perThread ThreadIdx =
     (let StartIdx = ThreadIdx * perThread;
          EndIdx = min (StartIdx + perThread) (int (length ActiveEntities))
      in if StartIdx \<ge> EndIdx then []
         else take (nat (EndIdx - StartIdx)) (drop (nat StartIdx) ActiveEntities))"

definition Shards :: "FTickEntityData list \<Rightarrow> int \<Rightarrow> FTickEntityData list list" where
  "Shards ActiveEntities NumThreads =
     map (Shard ActiveEntities (EntitiesPerThread (length ActiveEntities) NumThreads))
       [0 .. NumThreads - 1]"

text \<open>One task: every entity of the view whose callable is bound has it invoked.\<close>

definition RunShard :: "Host \<Rightarrow> FTickEntityData list \<Rightarrow> HostCall list" where
  "RunShard h view =
     concat (map (\<lambda>e. case TickFunction e of None \<Rightarrow> [] | Some f \<Rightarrow> RunTickLambda h f) view)"

text \<open>
  \<^verbatim>\<open>FComponentTypeBatch::TickBatchParallel\<close>. The tasks run concurrently and the caller
  waits for all of them; the outcome lists their entities shard after shard, which is one
  of the possible orders.
\<close>

definition TickBatchParallel :: "Host \<Rightarrow> real \<Rightarrow> FComponentTypeBatch \<Rightarrow> TickOutcome" where
  "TickBatchParallel h elapsed b =
     (let b0 = b\<lparr>LastFrameTickCount := 0\<rparr> in
      if length (TickEntities b0) = 0 \<or> BatchTickFunction b0 = None \<or> \<not> CanTickInParallel b0
      then TickBatch h elapsed b0
      else
        let b1 = (if bSortByCacheLocality b0 then SortForCacheLocality h b0 else b0);
            ActiveEntities = filter (EntityIsActive h) (TickEntities b1)
        in if length ActiveEntities = 0 then Untouched b1
           else if list_ex (MightBeUnsafe h) ActiveEntities then TickBatch h elapsed b1
           else
             let views = Shards ActiveEntities (NumberOfWorkerThreadsToSpawn h) in
             \<lparr>Batch = b1\<lparr>LastFrameTickCount := int (length ActiveEntities),
                           AverageTickTimeNs := elapsed * 1000000000 / real (length ActiveEntities)\<rparr>,
              Invoked = filter (\<lambda>e. TickFunction e \<noteq> None) (concat views),
              HostCalls = concat (map (RunShard h) views)\<rparr>)"

text \<open>
  The active entities as \<^verbatim>\<open>TickBatchParallel\<close> computes them: the filter of the entities
  after the optional sort. \<^verbatim>\<open>TickBatch\<close> filters the same list.
\<close>

definition ParallelActive :: "Host \<Rightarrow> FComponentTypeBatch \<Rightarrow> FTickEntityData list" where
  "ParallelActive h b =
     filter (EntityIsActive h)
       (TickEntities (if bSortByCacheLocality b then SortForCacheLocality h b else b))"

text \<open>
  A device of the proofs, not of the source: the elements the loop appends, in order,
  when it starts with \<open>l\<close> as the last element added.
\<close>

function GreedyPicks :: "FTickEntityData \<Rightarrow> FTickEntityData list \<Rightarrow> FTickEntityData list" where
  "GreedyPicks l valid =
     (if valid = [] then []
      else valid ! BestIdx l valid # GreedyPicks (valid ! BestIdx l valid) (RemoveAt (BestIdx l valid) valid))"
  by pat_completeness auto
termination
proof (relation "measure (\<lambda>(l, v). length v)")
  show "wf (measure (\<lambda>(l, v). length v))" by simp
next
  fix l and valid :: "FTickEntityData list"
  assume "valid \<noteq> []"
  then have "BestIdx l valid < length valid" by (rule BestIdx_bound)
  then show "((valid ! BestIdx l valid, RemoveAt (BestIdx l valid) valid), (l, valid))
             \<in> measure (\<lambda>(l, v). length v)"
    by (simp add: RemoveAt_def)
qed

declare GreedyPicks.simps [simp del]


section \<open>Containers\<close>

text \<open>
  A \<^verbatim>\<open>TMap\<close> is an association list with distinct keys, in insertion order: \<open>Find\<close> looks
  a key up, \<open>SetValue\<close> stores the value of a key (in place when the key is present, at
  the end otherwise), \<open>RemoveKey\<close> drops a key. The order in which the source iterates
  over a map is the order of the list.
\<close>

definition Find :: "('k \<times> 'v) list \<Rightarrow> 'k \<Rightarrow> 'v option" where
  "Find m k = map_of m k"

fun SetValue :: "('k \<times> 'v) list \<Rightarrow> 'k \<Rightarrow> 'v \<Rightarrow> ('k \<times> 'v) list" where
  "SetValue [] k v = [(k, v)]"
| "SetValue ((k', v') # m) k v = (if k' = k then (k, v) # m else (k', v') # SetValue m k v)"

definition RemoveKey :: "('k \<times> 'v) list \<Rightarrow> 'k \<Rightarrow> ('k \<times> 'v) list" where
  "RemoveKey m k = filter (\<lambda>kv. fst kv \<noteq> k) m"

section \<open>The spatial grid\<close>

text \<open>
  The grid holds \<^verbatim>\<open>FTickEntityData*\<close> pointers into the entity arrays of the batches. A
  pointer is the slot it was taken from: the class of the batch and the index in its
  \<^verbatim>\<open>TickEntities\<close>. Reading through a pointer reads what the slot holds now, so a removal
  that moves entities down changes what the later slots designate, as in the source. A
  slot past the end of its array resolves to nothing: the source would read freed or
  stale memory there, which is not modelled, nor is the reallocation of an array.
\<close>

datatype EntityPtr = NullEntity | EntityAt UClass nat

type_synonym BatchMap = "(UClass \<times> FComponentTypeBatch) list"

fun Deref :: "BatchMap \<Rightarrow> EntityPtr \<Rightarrow> FTickEntityData option" where
  "Deref m NullEntity = None"
| "Deref m (EntityAt c i) =
     (case Find m c of
        None \<Rightarrow> None
      | Some b \<Rightarrow> if i < length (TickEntities b) then Some (TickEntities b ! i) else None)"

fun StoreEntity :: "BatchMap \<Rightarrow> EntityPtr \<Rightarrow> FTickEntityData \<Rightarrow> BatchMap" where
  "StoreEntity m NullEntity e = m"
| "StoreEntity m (EntityAt c i) e =
     (case Find m c of
        None \<Rightarrow> m
      | Some b \<Rightarrow> SetValue m c (b\<lparr>TickEntities := (TickEntities b)[i := e]\<rparr>))"

record FSpatialEntityBatch =
  GridCellSize :: real
  GridCells :: "(16 word \<times> EntityPtr list) list"
  AllSpatialEntities :: "EntityPtr list"
  SpatialLockValid :: bool

text \<open>
  The packing \<^verbatim>\<open>((X & 0x3F) << 10) | ((Y & 0x3F) << 4) | (Z & 0xF)\<close> cast to
  \<^verbatim>\<open>uint16\<close>, on cell coordinates that are \<^verbatim>\<open>int32\<close> in the source (the bit
  operations on \<open>int\<close> are those of two's complement).
\<close>

definition PackCell :: "int \<Rightarrow> int \<Rightarrow> int \<Rightarrow> 16 word" where
  "PackCell CellX CellY CellZ =
     word_of_int (push_bit 10 (CellX AND 63) OR push_bit 4 (CellY AND 63) OR (CellZ AND 15))"

definition CalculateGridCell :: "FSpatialEntityBatch \<Rightarrow> FVector \<Rightarrow> 16 word" where
  "CalculateGridCell g p =
     PackCell \<lfloor>X p / GridCellSize g\<rfloor> \<lfloor>Y p / GridCellSize g\<rfloor> \<lfloor>Z p / GridCellSize g\<rfloor>"








section \<open>The tick system\<close>

record FTickStats =
  TotalRegisteredEntities :: int
  ActiveEntities :: int
  ParallelBatchCount :: int
  SpatialBatchCount :: int
  TotalTickTimeMs :: real
  CacheMissCount :: int

text \<open>
  \<^verbatim>\<open>GroupedBatches\<close> holds pointers to the batches stored in \<^verbatim>\<open>TypeBatches\<close>; a pointer
  to a batch is the class it is stored under. The frame counter is an \<^verbatim>\<open>int32\<close> that
  starts at 0 and is only ever assigned a remainder modulo 1000, so it is a natural
  number here. The locks of the source choose between two copies of the same statements;
  only the validity of the spatial lock decides anything, and it is a field of the grid.
\<close>

record UEnhancedTickSystem =
  TypeBatches :: BatchMap
  SpatialBatch :: FSpatialEntityBatch
  GroupedBatches :: "(ETickingGroup \<times> UClass list) list"
  PendingRegistrations :: "(UObjectPtr \<times> ETickBatchFlags) list"
  PendingUnregistrations :: "UObjectPtr list"
  FrameCounter :: nat
  bDebugMode :: bool
  bVerboseDebug :: bool
  Stats :: FTickStats

definition AllGroups :: "ETickingGroup list" where
  "AllGroups = [TG_PrePhysics, TG_StartPhysics, TG_DuringPhysics, TG_EndPhysics,
                TG_PostPhysics, TG_PostUpdateWork, TG_LastDemotable]"

text \<open>The default-constructed batch that \<^verbatim>\<open>TypeBatches.FindOrAdd\<close> adds for a new class.\<close>

definition NewBatch :: FComponentTypeBatch where
  "NewBatch =
     \<lparr>TypeName = [], Flags = FlagNone, BatchLockValid = True, TickEntities = [],
      BatchTickFunction = None, TickGroup = TG_PrePhysics, AverageTickTimeNs = 0,
      LastFrameTickCount = 0, bSortByCacheLocality = True\<rparr>"

text \<open>The system after its constructor and \<^verbatim>\<open>Initialize\<close>.\<close>

definition InitialSystem :: UEnhancedTickSystem where
  "InitialSystem =
     \<lparr>TypeBatches = [],
      SpatialBatch = \<lparr>GridCellSize = 2000, GridCells = [], AllSpatialEntities = [],
                       SpatialLockValid = True\<rparr>,
      GroupedBatches = map (\<lambda>Group. (Group, [])) AllGroups,
      PendingRegistrations = [], PendingUnregistrations = [], FrameCounter = 0,
      bDebugMode = False, bVerboseDebug = False,
      Stats = \<lparr>TotalRegisteredEntities = 0, ActiveEntities = 0, ParallelBatchCount = 0,
                SpatialBatchCount = 0, TotalTickTimeMs = 0, CacheMissCount = 0\<rparr>\<rparr>"

subsection \<open>AddEntity, RemoveEntity, TickAllGrids\<close>

definition AddEntity :: "EntityPtr \<Rightarrow> UEnhancedTickSystem \<Rightarrow> UEnhancedTickSystem" where
  "AddEntity Entity s =
     (case Deref (TypeBatches s) Entity of
        None \<Rightarrow> s
      | Some e \<Rightarrow>
          if Object e = None then s
          else
            let g = SpatialBatch s;
                GridCell = CalculateGridCell g (Position e);
                Cell = (case Find (GridCells g) GridCell of None \<Rightarrow> [] | Some c \<Rightarrow> c)
            in s\<lparr>TypeBatches := StoreEntity (TypeBatches s) Entity (e\<lparr>SpatialBucketId := GridCell\<rparr>),
                 SpatialBatch :=
                   g\<lparr>GridCells := SetValue (GridCells g) GridCell (Cell @ [Entity]),
                     AllSpatialEntities := AllSpatialEntities g @ [Entity]\<rparr>\<rparr>)"

text \<open>\<^verbatim>\<open>TArray::Remove\<close> removes every element equal to its argument.\<close>

definition RemoveEntity :: "EntityPtr \<Rightarrow> UEnhancedTickSystem \<Rightarrow> UEnhancedTickSystem" where
  "RemoveEntity Entity s =
     (case Deref (TypeBatches s) Entity of
        None \<Rightarrow> s
      | Some e \<Rightarrow>
          if Object e = None then s
          else
            let g = SpatialBatch s;
                GridCell = SpatialBucketId e;
                cells = (case Find (GridCells g) GridCell of
                           None \<Rightarrow> GridCells g
                         | Some Cell \<Rightarrow>
                             if length (removeAll Entity Cell) = 0
                             then RemoveKey (GridCells g) GridCell
                             else SetValue (GridCells g) GridCell (removeAll Entity Cell))
            in s\<lparr>SpatialBatch :=
                   g\<lparr>GridCells := cells,
                     AllSpatialEntities := removeAll Entity (AllSpatialEntities g)\<rparr>\<rparr>)"

definition TickGridMember :: "Host \<Rightarrow> BatchMap \<Rightarrow> EntityPtr \<Rightarrow> HostCall list" where
  "TickGridMember h m Entity =
     (case Deref m Entity of
        None \<Rightarrow> []
      | Some e \<Rightarrow>
          if \<not> IsValid h (Object e) then []
          else if bEnabled e
               then (case TickFunction e of None \<Rightarrow> [] | Some f \<Rightarrow> RunTickLambda h f)
               else [])"

definition TickAllGrids :: "Host \<Rightarrow> UEnhancedTickSystem \<Rightarrow> HostCall list" where
  "TickAllGrids h s =
     concat (map (\<lambda>GridPair. concat (map (TickGridMember h (TypeBatches s)) (snd GridPair)))
               (GridCells (SpatialBatch s)))"

subsection \<open>Registration and the deferred queue\<close>

text \<open>\<^verbatim>\<open>Object->IsA<T>()\<close> for the three thread-unsafe component types.\<close>

definition IsUnsafeComponent :: "Host \<Rightarrow> UObject \<Rightarrow> bool" where
  "IsUnsafeComponent h n =
     (ChildOfSceneComponent h (GetClass h n) \<or> ChildOfPrimitiveComponent h (GetClass h n)
      \<or> ChildOfCharacterMovement h (GetClass h n))"

text \<open>
  \<^verbatim>\<open>RegisterComponent\<close>; the custom tick target and function name are not used by the
  source. Switching the component's own tick off is an effect on the engine.
\<close>

definition RegisterComponent ::
  "Host \<Rightarrow> UObjectPtr \<Rightarrow> ETickBatchFlags \<Rightarrow> UEnhancedTickSystem \<Rightarrow> UEnhancedTickSystem" where
  "RegisterComponent h Component flags s =
     (case Component of
        None \<Rightarrow> s
      | Some n \<Rightarrow>
          if \<not> ObjectIsValid h n then s
          else
            let flags' = (if IsUnsafeComponent h n \<and> EnumHasAnyFlags flags UseParallel
                          then flags AND NOT UseParallel else flags)
            in s\<lparr>PendingRegistrations := PendingRegistrations s @ [(Component, flags')]\<rparr>)"

definition UnregisterComponent ::
  "Host \<Rightarrow> UObjectPtr \<Rightarrow> UEnhancedTickSystem \<Rightarrow> UEnhancedTickSystem" where
  "UnregisterComponent h Component s =
     (if \<not> IsValid h Component then s
      else s\<lparr>PendingUnregistrations := PendingUnregistrations s @ [Component]\<rparr>)"

definition DetermineBestTickFunction :: "Host \<Rightarrow> UClass \<Rightarrow> BatchLambda" where
  "DetermineBestTickFunction h c =
     (if ChildOfCharacterMovement h c then CharacterMovementBatchTick else GenericBatchTick)"

text \<open>
  The descriptor built for a component and for an actor. The location of a component is
  that of its owner, or the zero vector without an owner; the host's \<open>LocationOf\<close> stands
  for both, and \<open>TickGroupOf\<close> for the tick group of the primary tick function.
\<close>

definition ComponentEntityData :: "Host \<Rightarrow> FSpatialEntityBatch \<Rightarrow> UObject \<Rightarrow> FTickEntityData" where
  "ComponentEntityData h g n =
     \<lparr>Object = Some n, TickFunction = Some (ComponentLambda (Some n)),
      Position = LocationOf h n,
      SpatialBucketId = CalculateGridCell g (LocationOf h n),
      Priority = (if TickGroupOf h n = TG_PostPhysics then 200 else 100),
      bEnabled = IsActive h n\<rparr>"

definition ActorEntityData :: "Host \<Rightarrow> FSpatialEntityBatch \<Rightarrow> UObject \<Rightarrow> FTickEntityData" where
  "ActorEntityData h g n =
     \<lparr>Object = Some n, TickFunction = Some (ActorLambda (Some n)),
      Position = LocationOf h n,
      SpatialBucketId = CalculateGridCell g (LocationOf h n),
      Priority = 100,
      bEnabled = IsActorTickEnabled h n\<rparr>"

text \<open>
  The part of one registration that the component branch and the actor branch share: find
  or add the batch of the class, set it up when its name is still empty, append the
  descriptor, add it to the grid when asked, count it.
\<close>

definition AddToBatch ::
  "UClass \<Rightarrow> string \<Rightarrow> ETickingGroup \<Rightarrow> ETickBatchFlags \<Rightarrow> BatchLambda \<Rightarrow> FTickEntityData
     \<Rightarrow> UEnhancedTickSystem \<Rightarrow> UEnhancedTickSystem" where
  "AddToBatch c name grp flags fn EntityData s =
     (let found = (case Find (TypeBatches s) c of None \<Rightarrow> NewBatch | Some b \<Rightarrow> b);
          first = (TypeName found = []);
          b1 = (if first
                then found\<lparr>TypeName := name, TickGroup := grp, Flags := flags,
                           BatchTickFunction := Some fn\<rparr>
                else found);
          groups = (if first
                    then SetValue (GroupedBatches s) (TickGroup b1)
                           ((case Find (GroupedBatches s) (TickGroup b1) of
                               None \<Rightarrow> [] | Some l \<Rightarrow> l) @ [c])
                    else GroupedBatches s);
          b2 = b1\<lparr>TickEntities := TickEntities b1 @ [EntityData]\<rparr>;
          s1 = s\<lparr>TypeBatches := SetValue (TypeBatches s) c b2, GroupedBatches := groups\<rparr>;
          s2 = (if EnumHasAnyFlags flags SpatialAware \<and> SpatialLockValid (SpatialBatch s1)
                then AddEntity (EntityAt c (length (TickEntities b2) - 1)) s1
                else s1)
      in s2\<lparr>Stats := (Stats s2)\<lparr>TotalRegisteredEntities :=
                          TotalRegisteredEntities (Stats s2) + 1\<rparr>\<rparr>)"

definition ProcessRegistration ::
  "Host \<Rightarrow> UObjectPtr \<times> ETickBatchFlags \<Rightarrow> UEnhancedTickSystem \<Rightarrow> UEnhancedTickSystem" where
  "ProcessRegistration h RegPair s =
     (case fst RegPair of
        None \<Rightarrow> s
      | Some n \<Rightarrow>
          if \<not> ObjectIsValid h n then s
          else if KindOf h n = ActorComponentKind then
            (if \<not> ClassIsValid h (GetClass h n) then s
             else AddToBatch (GetClass h n) (GetName h (GetClass h n)) (TickGroupOf h n)
                    (snd RegPair) (DetermineBestTickFunction h (GetClass h n))
                    (ComponentEntityData h (SpatialBatch s) n) s)
          else if KindOf h n = ActorKind then
            (if \<not> ClassIsValid h (GetClass h n) then s
             else AddToBatch (GetClass h n) (GetName h (GetClass h n)) (TickGroupOf h n)
                    (snd RegPair) ActorBatchTick
                    (ActorEntityData h (SpatialBatch s) n) s)
          else s)"

text \<open>The index of the first descriptor of the object, the scan of the unregistration loop.\<close>

fun FirstIndexOf :: "UObjectPtr \<Rightarrow> FTickEntityData list \<Rightarrow> nat option" where
  "FirstIndexOf Obj [] = None"
| "FirstIndexOf Obj (e # es) =
     (if Object e = Obj then Some 0 else map_option Suc (FirstIndexOf Obj es))"

definition UnregisterFromBatch ::
  "UObjectPtr \<Rightarrow> UClass \<Rightarrow> UEnhancedTickSystem \<Rightarrow> UEnhancedTickSystem" where
  "UnregisterFromBatch Obj c s =
     (case Find (TypeBatches s) c of
        None \<Rightarrow> s
      | Some b \<Rightarrow>
          (case FirstIndexOf Obj (TickEntities b) of
             None \<Rightarrow> s
           | Some i \<Rightarrow>
               let s1 = (if SpatialLockValid (SpatialBatch s) then RemoveEntity (EntityAt c i) s
                         else s)
               in s1\<lparr>TypeBatches :=
                       SetValue (TypeBatches s1) c (b\<lparr>TickEntities := RemoveAt i (TickEntities b)\<rparr>),
                     Stats := (Stats s1)\<lparr>TotalRegisteredEntities :=
                                TotalRegisteredEntities (Stats s1) - 1\<rparr>\<rparr>))"

definition ProcessUnregistration ::
  "Host \<Rightarrow> UObjectPtr \<Rightarrow> UEnhancedTickSystem \<Rightarrow> UEnhancedTickSystem" where
  "ProcessUnregistration h Obj s =
     (if \<not> IsValid h Obj then s
      else fold (UnregisterFromBatch Obj) (map fst (TypeBatches s)) s)"

definition ProcessDeferredOperationsImpl :: "Host \<Rightarrow> UEnhancedTickSystem \<Rightarrow> UEnhancedTickSystem" where
  "ProcessDeferredOperationsImpl h s =
     (let s1 = fold (ProcessRegistration h) (PendingRegistrations s) s;
          s2 = fold (ProcessUnregistration h) (PendingUnregistrations s1) s1
      in s2\<lparr>PendingRegistrations := [], PendingUnregistrations := []\<rparr>)"

definition ProcessDeferredOperations :: "Host \<Rightarrow> UEnhancedTickSystem \<Rightarrow> UEnhancedTickSystem" where
  "ProcessDeferredOperations h s = ProcessDeferredOperationsImpl h s"

subsection \<open>Conditional ticks and the priority sort\<close>

definition RefreshEnabled :: "Host \<Rightarrow> FTickEntityData \<Rightarrow> FTickEntityData" where
  "RefreshEnabled h e =
     (case Object e of
        None \<Rightarrow> e\<lparr>bEnabled := False\<rparr>
      | Some n \<Rightarrow>
          if \<not> ObjectIsValid h n then e\<lparr>bEnabled := False\<rparr>
          else if KindOf h n = ActorComponentKind then e\<lparr>bEnabled := IsActive h n\<rparr>
          else if KindOf h n = ActorKind
               then e\<lparr>bEnabled := (ObjectIsValid h n \<and> IsActorTickEnabled h n)\<rparr>
               else e)"

definition UpdateConditionalTicks :: "Host \<Rightarrow> UEnhancedTickSystem \<Rightarrow> UEnhancedTickSystem" where
  "UpdateConditionalTicks h s =
     s\<lparr>TypeBatches :=
         map (\<lambda>Pair. if \<not> EnumHasAnyFlags (Flags (snd Pair)) Conditional then Pair
                      else (fst Pair,
                            (snd Pair)\<lparr>TickEntities := map (RefreshEnabled h) (TickEntities (snd Pair))\<rparr>))
           (TypeBatches s)\<rparr>"

text \<open>The predicate handed to \<^verbatim>\<open>Batches.Sort\<close>: \<open>True\<close> when \<open>A\<close> goes before \<open>B\<close>.\<close>

definition BatchBefore :: "FComponentTypeBatch \<Rightarrow> FComponentTypeBatch \<Rightarrow> bool" where
  "BatchBefore A B =
     (let bAHighPrio = EnumHasAnyFlags (Flags A) HighPrio;
          bBHighPrio = EnumHasAnyFlags (Flags B) HighPrio
      in if bAHighPrio \<noteq> bBHighPrio then bAHighPrio \<and> \<not> bBHighPrio
         else
           let bALowPrio = EnumHasAnyFlags (Flags A) LowPrio;
               bBLowPrio = EnumHasAnyFlags (Flags B) LowPrio
           in if bALowPrio \<noteq> bBLowPrio then \<not> bALowPrio \<and> bBLowPrio
              else length (TickEntities A) > length (TickEntities B))"

text \<open>The predicate on two batch pointers, which the sort dereferences.\<close>

definition PtrBefore :: "BatchMap \<Rightarrow> UClass \<Rightarrow> UClass \<Rightarrow> bool" where
  "PtrBefore m a b =
     (case Find m a of
        None \<Rightarrow> False
      | Some A \<Rightarrow> (case Find m b of None \<Rightarrow> False | Some B \<Rightarrow> BatchBefore A B))"

text \<open>
  \<^verbatim>\<open>TArray::Sort\<close> is the engine's: the source fixes the predicate, not the algorithm.
  The model sorts by insertion, one algorithm that orders a list by the predicate.
\<close>

fun InsertBy :: "('a \<Rightarrow> 'a \<Rightarrow> bool) \<Rightarrow> 'a \<Rightarrow> 'a list \<Rightarrow> 'a list" where
  "InsertBy before x [] = [x]"
| "InsertBy before x (y # ys) =
     (if before y x then y # InsertBy before x ys else x # y # ys)"

definition SortBy :: "('a \<Rightarrow> 'a \<Rightarrow> bool) \<Rightarrow> 'a list \<Rightarrow> 'a list" where
  "SortBy before xs = foldr (InsertBy before) xs []"

definition SortBatchesByPriority :: "UEnhancedTickSystem \<Rightarrow> UEnhancedTickSystem" where
  "SortBatchesByPriority s =
     s\<lparr>GroupedBatches :=
         map (\<lambda>GroupPair. (fst GroupPair, SortBy (PtrBefore (TypeBatches s)) (snd GroupPair)))
           (GroupedBatches s)\<rparr>"

subsection \<open>Ticking the batches of a group\<close>

datatype TickPath = SequentialPath | ParallelPath

record BatchDispatch =
  DispatchedClass :: UClass
  Path :: TickPath
  Entities :: "FTickEntityData list"
  Calls :: "HostCall list"

definition UpdateBatchProfilingData :: "FComponentTypeBatch \<Rightarrow> real \<Rightarrow> FTickStats \<Rightarrow> FTickStats" where
  "UpdateBatchProfilingData b ExecutionTimeMs st =
     st\<lparr>TotalTickTimeMs := TotalTickTimeMs st + ExecutionTimeMs,
        ActiveEntities := ActiveEntities st + LastFrameTickCount b\<rparr>"

text \<open>
  The body of the loop of \<^verbatim>\<open>TickGroupBatches\<close> for one batch pointer; the state carries
  the list of the dispatches made so far.
\<close>

definition TickOneBatch ::
  "Host \<Rightarrow> UClass \<Rightarrow> UEnhancedTickSystem \<times> BatchDispatch list
     \<Rightarrow> UEnhancedTickSystem \<times> BatchDispatch list" where
  "TickOneBatch h c st =
     (let s = fst st in
      case Find (TypeBatches s) c of
        None \<Rightarrow> st
      | Some b \<Rightarrow>
          if EnumHasAnyFlags (Flags b) LowPrio \<and> FrameCounter s mod 3 \<noteq> 0 then st
          else
            let par = (CanTickInParallel b \<and> length (TickEntities b) > 10);
                out = (if par then TickBatchParallel h (MeasuredSeconds h c) b
                       else TickBatch h (MeasuredSeconds h c) b);
                b' = Batch out
            in (s\<lparr>TypeBatches := SetValue (TypeBatches s) c b',
                  Stats := UpdateBatchProfilingData b' (AverageTickTimeNs b' / 1000000) (Stats s)\<rparr>,
                snd st @ [\<lparr>DispatchedClass = c,
                           Path = (if par then ParallelPath else SequentialPath),
                           Entities = Invoked out, Calls = HostCalls out\<rparr>]))"

definition TickGroupBatches ::
  "Host \<Rightarrow> ETickingGroup \<Rightarrow> UEnhancedTickSystem \<times> BatchDispatch list
     \<Rightarrow> UEnhancedTickSystem \<times> BatchDispatch list" where
  "TickGroupBatches h Group st =
     (case Find (GroupedBatches (fst st)) Group of
        None \<Rightarrow> st
      | Some Batches \<Rightarrow> fold (TickOneBatch h) Batches st)"

subsection \<open>The optimizer\<close>

definition AnalyzeBatch :: "FComponentTypeBatch \<Rightarrow> FComponentTypeBatch" where
  "AnalyzeBatch b =
     (let b1 = (if AverageTickTimeNs b > 1000 \<and> length (TickEntities b) > 10
                then b\<lparr>Flags := Flags b OR UseParallel\<rparr> else b);
          b2 = (if length (TickEntities b1) < 5 then b1\<lparr>bSortByCacheLocality := False\<rparr> else b1)
      in if AverageTickTimeNs b2 < 100 \<and> \<not> EnumHasAnyFlags (Flags b2) HighPrio
         then b2\<lparr>Flags := Flags b2 OR LowPrio\<rparr> else b2)"

definition AnalyzeCurrentState :: "UEnhancedTickSystem \<Rightarrow> UEnhancedTickSystem" where
  "AnalyzeCurrentState s =
     s\<lparr>TypeBatches := map (\<lambda>Pair. (fst Pair, AnalyzeBatch (snd Pair))) (TypeBatches s),
       Stats := (Stats s)\<lparr>ParallelBatchCount :=
                  ParallelBatchCount (Stats s)
                  + int (length (filter (\<lambda>Pair. AverageTickTimeNs (snd Pair) > 1000
                                            \<and> length (TickEntities (snd Pair)) > 10)
                                   (TypeBatches s)))\<rparr>\<rparr>"

definition IsSpatialComponent :: "Host \<Rightarrow> UClass \<Rightarrow> bool" where
  "IsSpatialComponent h c =
     (ChildOfPrimitiveComponent h c \<or> ChildOfAIPerception h c
      \<or> NameContains h c ''Spatial'' \<or> NameContains h c ''Physics'')"

text \<open>The inner loop of \<^verbatim>\<open>ApplyOptimizationHints\<close> for the entity in slot \<open>i\<close>.\<close>

definition HintEntity :: "Host \<Rightarrow> UClass \<Rightarrow> nat \<Rightarrow> UEnhancedTickSystem \<Rightarrow> UEnhancedTickSystem" where
  "HintEntity h c i s =
     (case Deref (TypeBatches s) (EntityAt c i) of
        None \<Rightarrow> s
      | Some e \<Rightarrow>
          if EntityIsActive h e \<and> SpatialLockValid (SpatialBatch s) then AddEntity (EntityAt c i) s
          else s)"

definition HintBatch :: "Host \<Rightarrow> UClass \<Rightarrow> UEnhancedTickSystem \<Rightarrow> UEnhancedTickSystem" where
  "HintBatch h c s =
     (case Find (TypeBatches s) c of
        None \<Rightarrow> s
      | Some b \<Rightarrow>
          if \<not> ClassIsValid h c then s
          else if IsSpatialComponent h c \<and> \<not> EnumHasAnyFlags (Flags b) SpatialAware then
            fold (HintEntity h c) [0 ..< length (TickEntities b)]
              (s\<lparr>TypeBatches := SetValue (TypeBatches s) c (b\<lparr>Flags := Flags b OR SpatialAware\<rparr>),
                 Stats := (Stats s)\<lparr>SpatialBatchCount := SpatialBatchCount (Stats s) + 1\<rparr>\<rparr>)
          else s)"

definition ApplyOptimizationHints :: "Host \<Rightarrow> UEnhancedTickSystem \<Rightarrow> UEnhancedTickSystem" where
  "ApplyOptimizationHints h s = fold (HintBatch h) (map fst (TypeBatches s)) s"

definition OptimizeCharacterMovementBatch :: "FComponentTypeBatch \<Rightarrow> FComponentTypeBatch" where
  "OptimizeCharacterMovementBatch b =
     b\<lparr>BatchTickFunction := Some CharacterMovementBatchTick,
       Flags := (Flags b AND NOT UseParallel) OR SpatialAware\<rparr>"

definition OptimizeAIPerceptionBatch :: "FComponentTypeBatch \<Rightarrow> FComponentTypeBatch" where
  "OptimizeAIPerceptionBatch b =
     b\<lparr>BatchTickFunction := Some AIPerceptionBatchTick, Flags := Flags b OR SpatialAware\<rparr>"

definition OptimizeBatches :: "Host \<Rightarrow> UEnhancedTickSystem \<Rightarrow> UEnhancedTickSystem" where
  "OptimizeBatches h s =
     (let s1 = ApplyOptimizationHints h (AnalyzeCurrentState s)
      in s1\<lparr>TypeBatches :=
              map (\<lambda>Pair. if ChildOfCharacterMovement h (fst Pair)
                           then (fst Pair, OptimizeCharacterMovementBatch (snd Pair))
                           else if ChildOfAIPerception h (fst Pair)
                           then (fst Pair, OptimizeAIPerceptionBatch (snd Pair))
                           else Pair)
                (TypeBatches s1)\<rparr>)"

subsection \<open>Tick\<close>

definition TickOrder :: "ETickingGroup list" where
  "TickOrder = [TG_PrePhysics, TG_StartPhysics, TG_DuringPhysics, TG_EndPhysics,
                TG_PostPhysics, TG_PostUpdateWork, TG_LastDemotable]"

text \<open>
  The first statements of \<^verbatim>\<open>Tick\<close>: advance the frame counter, flush the deferred
  operations, refresh the conditional batches, sort the groups.
\<close>

definition BeginFrame :: "Host \<Rightarrow> UEnhancedTickSystem \<Rightarrow> UEnhancedTickSystem" where
  "BeginFrame h s =
     SortBatchesByPriority
       (UpdateConditionalTicks h
          (ProcessDeferredOperations h (s\<lparr>FrameCounter := (FrameCounter s + 1) mod 1000\<rparr>)))"

record FrameOutcome =
  System :: UEnhancedTickSystem
  Dispatches :: "BatchDispatch list"
  GridCalls :: "HostCall list"

text \<open>
  \<^verbatim>\<open>UEnhancedTickSystem::Tick\<close>. The host is read as it is at the start of the frame:
  what the update calls do to the engine within the frame is not modelled.
\<close>

definition Tick :: "Host \<Rightarrow> UEnhancedTickSystem \<Rightarrow> FrameOutcome" where
  "Tick h s =
     (let ticked = fold (TickGroupBatches h) TickOrder (BeginFrame h s, []);
          s1 = fst ticked;
          grid = (if GridCells (SpatialBatch s1) \<noteq> [] \<and> SpatialLockValid (SpatialBatch s1)
                  then TickAllGrids h s1 else []);
          s2 = (if FrameCounter s1 mod 300 = 0 then OptimizeBatches h s1 else s1)
      in \<lparr>System = s2, Dispatches = snd ticked, GridCalls = grid\<rparr>)"

text \<open>The system at the start of frame \<open>k\<close> (counted from 0), the host of frame \<open>i\<close> being \<open>hs i\<close>.\<close>

fun SystemAtFrame :: "(nat \<Rightarrow> Host) \<Rightarrow> UEnhancedTickSystem \<Rightarrow> nat \<Rightarrow> UEnhancedTickSystem" where
  "SystemAtFrame hs s 0 = s"
| "SystemAtFrame hs s (Suc k) = System (Tick (hs k) (SystemAtFrame hs s k))"

definition DispatchedClasses :: "FrameOutcome \<Rightarrow> UClass list" where
  "DispatchedClasses out = map DispatchedClass (Dispatches out)"

subsection \<open>The order of the priority sort, in words\<close>

text \<open>
  \<open>A\<close> may stand before \<open>B\<close>: a high-priority batch is not preceded by one that is not;
  among batches alike in that, a low-priority batch does not precede one that is not;
  among batches alike in both, the larger number of entities comes first.
\<close>

definition InPriorityOrder :: "FComponentTypeBatch \<Rightarrow> FComponentTypeBatch \<Rightarrow> bool" where
  "InPriorityOrder A B =
     ((EnumHasAnyFlags (Flags B) HighPrio \<longrightarrow> EnumHasAnyFlags (Flags A) HighPrio)
      \<and> (EnumHasAnyFlags (Flags A) HighPrio = EnumHasAnyFlags (Flags B) HighPrio
           \<longrightarrow> EnumHasAnyFlags (Flags A) LowPrio \<longrightarrow> EnumHasAnyFlags (Flags B) LowPrio)
      \<and> (EnumHasAnyFlags (Flags A) HighPrio = EnumHasAnyFlags (Flags B) HighPrio
           \<and> EnumHasAnyFlags (Flags A) LowPrio = EnumHasAnyFlags (Flags B) LowPrio
           \<longrightarrow> length (TickEntities B) \<le> length (TickEntities A)))"

text \<open>A device of the proofs: the rank that the predicate of the sort compares.\<close>

definition BatchRank :: "FComponentTypeBatch \<Rightarrow> nat \<times> nat \<times> int" where
  "BatchRank b =
     (if EnumHasAnyFlags (Flags b) HighPrio then 0 else 1,
      if EnumHasAnyFlags (Flags b) LowPrio then 1 else 0,
      - int (length (TickEntities b)))"

subsection \<open>Counting the descriptors of an object\<close>

text \<open>
  The number of descriptors that reference object \<open>n\<close> in the batch stored under class
  \<open>c\<close> (0 when there is no such batch), and the objects that a flush turns into a
  descriptor: valid, a component or an actor, of a valid class.
\<close>

definition Occurrences :: "UObject \<Rightarrow> UEnhancedTickSystem \<Rightarrow> UClass \<Rightarrow> nat" where
  "Occurrences n s c =
     (case Find (TypeBatches s) c of
        None \<Rightarrow> 0
      | Some b \<Rightarrow> length (filter (\<lambda>e. Object e = Some n) (TickEntities b)))"

definition Registrable :: "Host \<Rightarrow> UObject \<Rightarrow> bool" where
  "Registrable h n =
     (ObjectIsValid h n \<and> (KindOf h n = ActorComponentKind \<or> KindOf h n = ActorKind)
      \<and> ClassIsValid h (GetClass h n))"

subsection \<open>The batches a frame dispatches\<close>

text \<open>
  The batch pointers listed under the phases of the tick order, phase after phase, and
  the test of \<^verbatim>\<open>TickGroupBatches\<close> that lets a batch through to its tick: the pointer
  designates a batch, and the batch is not a low-priority batch on a frame whose counter
  is not a multiple of 3.
\<close>

definition GroupList :: "UEnhancedTickSystem \<Rightarrow> ETickingGroup \<Rightarrow> UClass list" where
  "GroupList s Group = (case Find (GroupedBatches s) Group of None \<Rightarrow> [] | Some Batches \<Rightarrow> Batches)"

definition ListedClasses :: "UEnhancedTickSystem \<Rightarrow> UClass list" where
  "ListedClasses s = concat (map (GroupList s) TickOrder)"

definition Dispatchable :: "UEnhancedTickSystem \<Rightarrow> UClass \<Rightarrow> bool" where
  "Dispatchable s c =
     (case Find (TypeBatches s) c of
        None \<Rightarrow> False
      | Some b \<Rightarrow> \<not> (EnumHasAnyFlags (Flags b) LowPrio \<and> FrameCounter s mod 3 \<noteq> 0))"

section \<open>Example data\<close>

text \<open>
  A host in which every object but number 9 is valid, objects below 50 are components of
  class 1 and the others actors of class 2, nothing derives from a scene, primitive,
  character movement or perception component, the application clock reads 10 seconds and
  two worker threads are available; a component descriptor as the flush builds it; and a
  batch of such descriptors that ticked five entities in the frame before.
\<close>

definition DemoHost :: Host where
  "DemoHost =
     \<lparr>ObjectIsValid = (\<lambda>n. n \<noteq> 9), KindOf = (\<lambda>n. if n < 50 then ActorComponentKind else ActorKind),
      GetClass = (\<lambda>n. if n < 50 then 1 else 2), ClassIsValid = (\<lambda>c. True),
      GetName = (\<lambda>c. if c = 1 then ''MyComponent'' else ''MyActor''),
      NameContains = (\<lambda>c s. False), ChildOfSceneComponent = (\<lambda>c. False),
      ChildOfPrimitiveComponent = (\<lambda>c. False), ChildOfCharacterMovement = (\<lambda>c. False),
      ChildOfAIPerception = (\<lambda>c. False), TickGroupOf = (\<lambda>n. TG_PrePhysics),
      LocationOf = (\<lambda>n. \<lparr>X = real n, Y = 0, Z = 0\<rparr>), IsActive = (\<lambda>n. True),
      IsActorTickEnabled = (\<lambda>n. True), CurrentTime = 10, NumberOfWorkerThreadsToSpawn = 2,
      MeasuredSeconds = (\<lambda>c. 0)\<rparr>"

definition DemoEntity :: "nat \<Rightarrow> bool \<Rightarrow> FTickEntityData" where
  "DemoEntity n en =
     \<lparr>Object = Some n, TickFunction = Some (ComponentLambda (Some n)),
      Position = \<lparr>X = real n, Y = 0, Z = 0\<rparr>, SpatialBucketId = 0, Priority = 100, bEnabled = en\<rparr>"

definition DemoBatch :: "ETickBatchFlags \<Rightarrow> FTickEntityData list \<Rightarrow> FComponentTypeBatch" where
  "DemoBatch f es =
     \<lparr>TypeName = ''MyComponent'', Flags = f, BatchLockValid = True, TickEntities = es,
      BatchTickFunction = Some GenericBatchTick, TickGroup = TG_PrePhysics,
      AverageTickTimeNs = 0, LastFrameTickCount = 5, bSortByCacheLocality = True\<rparr>"





text \<open>
  Two batches of equal flags in one group: class 1 with one entity, which ticked five
  entities in the frame before, and class 2 with two entities, which ticked none. And a
  system with a batch of twenty entities and average tick time 1500 ns under class 1, and
  a batch of three entities under class 2.
\<close>

definition DemoSortSystem :: UEnhancedTickSystem where
  "DemoSortSystem =
     InitialSystem
       \<lparr>TypeBatches :=
          [(1, DemoBatch FlagNone [DemoEntity 1 True]),
           (2, (DemoBatch FlagNone [DemoEntity 2 True, DemoEntity 3 True])\<lparr>LastFrameTickCount := 0\<rparr>)],
        GroupedBatches := [(TG_PrePhysics, [1, 2])]\<rparr>"

definition DemoAnalyzeSystem :: UEnhancedTickSystem where
  "DemoAnalyzeSystem =
     InitialSystem
       \<lparr>TypeBatches :=
          [(1, (DemoBatch FlagNone (map (\<lambda>n. DemoEntity n True) [1 ..< 21]))\<lparr>AverageTickTimeNs := 1500\<rparr>),
           (2, DemoBatch FlagNone [DemoEntity 30 True, DemoEntity 31 True, DemoEntity 32 True])]\<rparr>"

text \<open>
  The initial system with four calls queued: components 2 and 1 are registered as
  spatially aware, then component 2 and component 1 are unregistered.
\<close>

definition DemoQueued :: UEnhancedTickSystem where
  "DemoQueued =
     UnregisterComponent DemoHost (Some 1)
       (UnregisterComponent DemoHost (Some 2)
          (RegisterComponent DemoHost (Some 1) SpatialAware
             (RegisterComponent DemoHost (Some 2) SpatialAware InitialSystem)))"

text \<open>The example host with class 1 a character movement component class.\<close>

definition DemoMovementHost :: Host where
  "DemoMovementHost = DemoHost\<lparr>ChildOfCharacterMovement := (\<lambda>c. c = 1)\<rparr>"


text \<open>
  The initial system with the registration of component 1 as a low-priority component
  pending, and the system that this registration leaves once flushed, with the frame
  counter at \<open>k\<close>.
\<close>

definition LowPrioSystem :: UEnhancedTickSystem where
  "LowPrioSystem = RegisterComponent DemoHost (Some 1) LowPrio InitialSystem"

definition LowPrioRunning :: "nat \<Rightarrow> UEnhancedTickSystem" where
  "LowPrioRunning k =
     InitialSystem
       \<lparr>TypeBatches :=
          [(1, (DemoBatch LowPrio [ComponentEntityData DemoHost (SpatialBatch InitialSystem) 1])
                 \<lparr>LastFrameTickCount := 0\<rparr>)],
        GroupedBatches := (TG_PrePhysics, [1]) # tl (GroupedBatches InitialSystem),
        FrameCounter := k,
        Stats := (Stats InitialSystem)\<lparr>TotalRegisteredEntities := 1\<rparr>\<rparr>"

section \<open>Properties of SortForCacheLocality\<close>

lemma length_RemoveAt: "i < length xs \<Longrightarrow> length (RemoveAt i xs) = length xs - 1"
  by (simp add: RemoveAt_def)

lemma mset_RemoveAt: "i < length xs \<Longrightarrow> add_mset (xs ! i) (mset (RemoveAt i xs)) = mset xs"
proof -
  assume a: "i < length xs"
  have "xs = take i xs @ xs ! i # drop (Suc i) xs" using a by (rule id_take_nth_drop)
  then have "mset xs = mset (take i xs @ xs ! i # drop (Suc i) xs)" by simp
  then show ?thesis by (simp add: RemoveAt_def)
qed

lemma GreedyChain_Picks: "srt \<noteq> [] \<Longrightarrow> GreedyChain srt valid = srt @ GreedyPicks (last srt) valid"
proof (induction srt valid rule: GreedyChain.induct)
  case (1 srt valid)
  show ?case
  proof (cases "valid = []")
    case True
    then show ?thesis by (simp add: GreedyChain.simps [of srt] GreedyPicks.simps [of "last srt"])
  next
    case False
    then show ?thesis
      using "1.IH" [OF False]
      by (simp add: GreedyChain.simps [of srt valid] GreedyPicks.simps [of "last srt" valid])
  qed
qed

lemma mset_GreedyPicks: "mset (GreedyPicks l valid) = mset valid"
proof (induction l valid rule: GreedyPicks.induct)
  case (1 l valid)
  show ?case
  proof (cases "valid = []")
    case True
    then show ?thesis by (simp add: GreedyPicks.simps [of l])
  next
    case False
    then have "BestIdx l valid < length valid" by (rule BestIdx_bound)
    then show ?thesis
      using "1.IH" [OF False] False
      by (simp add: GreedyPicks.simps [of l valid] mset_RemoveAt)
  qed
qed

lemma FindNearest_keep:
  "\<forall>v \<in> set vs. bd \<le> GetDistance l v \<Longrightarrow> FindNearest l vs i best bd = best"
  by (induction vs arbitrary: i) auto

lemma BestIdx_head: "\<forall>v \<in> set vs. GetDistance l x \<le> GetDistance l v \<Longrightarrow> BestIdx l (x # vs) = 0"
  by (simp add: BestIdx_def FindNearest_keep)

lemma FindNearest_min:
  "length pre = i \<Longrightarrow> best < i \<Longrightarrow> bd = GetDistance l (pre ! best) \<Longrightarrow>
   \<forall>v \<in> set pre. bd \<le> GetDistance l v \<Longrightarrow>
   \<forall>v \<in> set (pre @ vs).
      GetDistance l ((pre @ vs) ! FindNearest l vs i best bd) \<le> GetDistance l v"
proof (induction vs arbitrary: pre i best bd)
  case Nil
  then show ?case by (simp add: nth_append)
next
  case (Cons w vs)
  show ?case
  proof (cases "GetDistance l w < bd")
    case True
    have "\<forall>v \<in> set ((pre @ [w]) @ vs).
      GetDistance l (((pre @ [w]) @ vs) ! FindNearest l vs (Suc i) i (GetDistance l w)) \<le> GetDistance l v"
      apply (rule Cons.IH)
      using Cons.prems True by (auto simp: nth_append)
    then show ?thesis using True by simp
  next
    case False
    have "\<forall>v \<in> set ((pre @ [w]) @ vs).
      GetDistance l (((pre @ [w]) @ vs) ! FindNearest l vs (Suc i) best bd) \<le> GetDistance l v"
      apply (rule Cons.IH)
      using Cons.prems False by (auto simp: nth_append)
    then show ?thesis using False by simp
  qed
qed

lemma BestIdx_min:
  assumes "valid \<noteq> []"
  shows "\<forall>v \<in> set valid. GetDistance l (valid ! BestIdx l valid) \<le> GetDistance l v"
proof -
  obtain x vs where v: "valid = x # vs" using assms by (cases valid) auto
  have "\<forall>v \<in> set ([x] @ vs).
      GetDistance l (([x] @ vs) ! FindNearest l vs 1 0 (GetDistance l ([x] ! 0))) \<le> GetDistance l v"
    by (rule FindNearest_min) auto
  then show ?thesis by (simp add: v BestIdx_def)
qed

lemma GreedyPicks_idem: "GreedyPicks l (GreedyPicks l valid) = GreedyPicks l valid"
proof (induction l valid rule: GreedyPicks.induct)
  case (1 l valid)
  show ?case
  proof (cases "valid = []")
    case True
    then show ?thesis by (simp add: GreedyPicks.simps [of l "[]"])
  next
    case False
    define x where "x = valid ! BestIdx l valid"
    define rest where "rest = RemoveAt (BestIdx l valid) valid"
    have bound: "BestIdx l valid < length valid" using False by (rule BestIdx_bound)
    have unfold: "GreedyPicks l valid = x # GreedyPicks x rest"
      using False by (simp add: GreedyPicks.simps [of l valid] x_def rest_def)
    have "set (GreedyPicks x rest) = set rest"
      using mset_GreedyPicks [of x rest] by (metis set_mset_mset)
    moreover have "set rest \<subseteq> set valid"
      using mset_RemoveAt [OF bound] by (metis rest_def set_mset_mset set_mset_add_mset_insert subset_insertI)
    ultimately have "\<forall>v \<in> set (GreedyPicks x rest). GetDistance l x \<le> GetDistance l v"
      using BestIdx_min [OF False, of l] by (auto simp: x_def)
    then have head: "BestIdx l (x # GreedyPicks x rest) = 0" by (rule BestIdx_head)
    have "GreedyPicks l (x # GreedyPicks x rest) = x # GreedyPicks x (GreedyPicks x rest)"
      by (simp add: GreedyPicks.simps [of l "x # GreedyPicks x rest"] head RemoveAt_def)
    also have "\<dots> = x # GreedyPicks x rest"
      using "1.IH" [OF False] by (simp add: x_def rest_def)
    finally show ?thesis by (simp add: unfold)
  qed
qed

lemma Sort_idem:
  "SortForCacheLocality h (SortForCacheLocality h b) = SortForCacheLocality h b"
proof (cases "length (TickEntities b) < 2 \<or> length (filter (EntityIsActive h) (TickEntities b)) < 2")
  case True
  then show ?thesis by (auto simp: SortForCacheLocality_def Let_def)
next
  case False
  define valid where "valid = filter (EntityIsActive h) (TickEntities b)"
  obtain v0 rest where v: "valid = v0 # rest" using False by (cases valid) (auto simp: valid_def)
  define L where "L = v0 # GreedyPicks v0 rest"
  have first: "SortForCacheLocality h b = b\<lparr>TickEntities := L\<rparr>"
    using False v by (simp add: SortForCacheLocality_def Let_def valid_def [symmetric] RemoveAt_def
        GreedyChain_Picks L_def)
  have "set L = set valid" using mset_GreedyPicks [of v0 rest] by (metis L_def v list.simps(15) set_mset_mset)
  then have "\<forall>e \<in> set L. EntityIsActive h e" by (simp add: valid_def)
  then have filt: "filter (EntityIsActive h) L = L" by simp
  have "length L = length valid" using mset_GreedyPicks [of v0 rest] by (metis L_def v length_Cons size_mset)
  then have len: "\<not> length L < 2" using False by (simp add: valid_def)
  have "SortForCacheLocality h (b\<lparr>TickEntities := L\<rparr>) = b\<lparr>TickEntities := L\<rparr>"
    using len filt
    by (simp add: SortForCacheLocality_def Let_def) (simp add: L_def RemoveAt_def GreedyChain_Picks GreedyPicks_idem)
  then show ?thesis by (simp add: first)
qed


lemma Sort_fields:
  "Flags (SortForCacheLocality h b) = Flags b"
  "BatchTickFunction (SortForCacheLocality h b) = BatchTickFunction b"
  "AverageTickTimeNs (SortForCacheLocality h b) = AverageTickTimeNs b"
  "LastFrameTickCount (SortForCacheLocality h b) = LastFrameTickCount b"
  "bSortByCacheLocality (SortForCacheLocality h b) = bSortByCacheLocality b"
  "TypeName (SortForCacheLocality h b) = TypeName b"
  "TickGroup (SortForCacheLocality h b) = TickGroup b"
  "BatchLockValid (SortForCacheLocality h b) = BatchLockValid b"
  by (simp_all add: SortForCacheLocality_def Let_def)

lemma Sort_entities:
  "TickEntities (SortForCacheLocality h b) =
     (if length (filter (EntityIsActive h) (TickEntities b)) < 2 then TickEntities b
      else hd (filter (EntityIsActive h) (TickEntities b))
           # GreedyPicks (hd (filter (EntityIsActive h) (TickEntities b)))
               (tl (filter (EntityIsActive h) (TickEntities b))))"
proof (cases "filter (EntityIsActive h) (TickEntities b)")
  case Nil
  then show ?thesis by (simp add: SortForCacheLocality_def Let_def)
next
  case (Cons v vs)
  have "length (filter (EntityIsActive h) (TickEntities b)) \<le> length (TickEntities b)"
    by (rule length_filter_le)
  then have "Suc (length vs) \<le> length (TickEntities b)" using Cons by simp
  then show ?thesis using Cons
    by (cases vs) (auto simp add: SortForCacheLocality_def Let_def RemoveAt_def GreedyChain_Picks)
qed

lemma Sort_active_mset:
  "mset (filter (EntityIsActive h) (TickEntities (SortForCacheLocality h b)))
   = mset (filter (EntityIsActive h) (TickEntities b))"
proof (cases "length (filter (EntityIsActive h) (TickEntities b)) < 2")
  case True
  then show ?thesis by (simp add: Sort_entities)
next
  case False
  then obtain v vs where f: "filter (EntityIsActive h) (TickEntities b) = v # vs"
    by (cases "filter (EntityIsActive h) (TickEntities b)") auto
  have all: "\<forall>e \<in> set (v # vs). EntityIsActive h e"
  proof
    fix e assume "e \<in> set (v # vs)"
    then have "e \<in> set (filter (EntityIsActive h) (TickEntities b))" using f by simp
    then show "EntityIsActive h e" by simp
  qed
  have "set (GreedyPicks v vs) = set vs" using mset_GreedyPicks [of v vs] by (metis set_mset_mset)
  then have "\<forall>e \<in> set (v # GreedyPicks v vs). EntityIsActive h e" using all by simp
  then have keep: "filter (EntityIsActive h) (v # GreedyPicks v vs) = v # GreedyPicks v vs"
    by (simp only: filter_id_conv)
  have "TickEntities (SortForCacheLocality h b) = v # GreedyPicks v vs"
    using False f by (simp add: Sort_entities)
  then have "mset (filter (EntityIsActive h) (TickEntities (SortForCacheLocality h b)))
      = mset (v # GreedyPicks v vs)" by (simp only: keep)
  also have "\<dots> = mset (v # vs)" by (simp add: mset_GreedyPicks)
  finally show ?thesis by (simp only: f)
qed

lemma Sort_nonempty: "TickEntities (SortForCacheLocality h b) = [] \<longleftrightarrow> TickEntities b = []"
  by (cases "TickEntities b") (auto simp: Sort_entities)

lemma Sort_LastFrameTickCount_update:
  "SortForCacheLocality h (b\<lparr>LastFrameTickCount := n\<rparr>) = (SortForCacheLocality h b)\<lparr>LastFrameTickCount := n\<rparr>"
  by (simp add: SortForCacheLocality_def Let_def)

lemma Sort_subset: "set (TickEntities (SortForCacheLocality h b)) \<subseteq> set (TickEntities b)"
proof (cases "length (filter (EntityIsActive h) (TickEntities b)) < 2")
  case True
  then show ?thesis by (simp add: Sort_entities)
next
  case False
  then obtain v vs where f: "filter (EntityIsActive h) (TickEntities b) = v # vs"
    by (cases "filter (EntityIsActive h) (TickEntities b)") auto
  have "set (GreedyPicks v vs) = set vs" using mset_GreedyPicks [of v vs] by (metis set_mset_mset)
  then have "set (v # GreedyPicks v vs) = set (filter (EntityIsActive h) (TickEntities b))"
    by (simp add: f)
  then have "set (v # GreedyPicks v vs) \<subseteq> set (TickEntities b)" by auto
  moreover have "TickEntities (SortForCacheLocality h b) = v # GreedyPicks v vs"
    using False f by (simp add: Sort_entities)
  ultimately show ?thesis by simp
qed

lemma TickBatch_reset: "TickBatch h t (b\<lparr>LastFrameTickCount := n\<rparr>) = TickBatch h t b"
  by (simp add: TickBatch_def)

lemma Sort_empty: "TickEntities b = [] \<Longrightarrow> SortForCacheLocality h b = b"
  by (simp add: SortForCacheLocality_def)

lemma TickBatch_after_sort:
  assumes "bSortByCacheLocality b" "BatchTickFunction b \<noteq> None"
  shows "TickBatch h t (SortForCacheLocality h b) = TickBatch h t b"
proof (cases "TickEntities b = []")
  case True
  then show ?thesis by (simp add: Sort_empty)
next
  case False
  obtain fn where fn: "BatchTickFunction b = Some fn" using assms(2) by auto
  show ?thesis
    using False assms(1) fn
    by (simp add: TickBatch_def Let_def Sort_fields Sort_nonempty
        Sort_LastFrameTickCount_update [symmetric] Sort_idem)
qed

lemma TickBatchParallel_fallback:
  "\<not> CanTickInParallel b \<or> list_ex (MightBeUnsafe h) (ParallelActive h b) \<Longrightarrow>
   TickBatchParallel h t b = TickBatch h t b"
proof (cases "length (TickEntities b) = 0 \<or> BatchTickFunction b = None \<or> \<not> CanTickInParallel b")
  case True
  then show ?thesis
    by (auto simp add: TickBatchParallel_def Let_def CanTickInParallel_def TickBatch_reset)
next
  case False
  assume "\<not> CanTickInParallel b \<or> list_ex (MightBeUnsafe h) (ParallelActive h b)"
  then have u: "list_ex (MightBeUnsafe h) (ParallelActive h b)" using False by simp
  then have ne: "ParallelActive h b \<noteq> []" by auto
  show ?thesis
  proof (cases "bSortByCacheLocality b")
    case True
    have "TickBatchParallel h t b = TickBatch h t ((SortForCacheLocality h b)\<lparr>LastFrameTickCount := 0\<rparr>)"
      using False True u ne
      by (auto simp add: TickBatchParallel_def Let_def CanTickInParallel_def ParallelActive_def
          Sort_LastFrameTickCount_update)
    then show ?thesis using True False by (simp add: TickBatch_reset TickBatch_after_sort)
  next
    case nosort: False
    have "TickBatchParallel h t b = TickBatch h t (b\<lparr>LastFrameTickCount := 0\<rparr>)"
      using False nosort u ne
      by (auto simp add: TickBatchParallel_def Let_def CanTickInParallel_def ParallelActive_def)
    then show ?thesis by (simp add: TickBatch_reset)
  qed
qed

text \<open>
  Claim C9. Calling \<^verbatim>\<open>SortForCacheLocality\<close> twice in succession, with no change to the
  batch or to the validity of its entities between the calls, gives the batch the first
  call gave: the second sort produces the same entity order. The greedy chain starts
  again from the same first entity, and at every step the entity chosen by the first
  call now stands first among the remaining ones and still has the least distance, so
  the strict comparison of the scan keeps it.
\<close>

theorem SortForCacheLocality_idempotent:
  "SortForCacheLocality h (SortForCacheLocality h b) = SortForCacheLocality h b"
  by (rule Sort_idem)

text \<open>
  Claim C3 says that \<^verbatim>\<open>SortForCacheLocality\<close> never changes the membership of the batch.
  The source chains only the entities that pass \<^verbatim>\<open>bEnabled && IsValid(Object)\<close> and then
  assigns the chain to \<^verbatim>\<open>TickEntities\<close>: as soon as two entities pass the test, every
  entity that fails it is dropped from the batch. The lemma states what the call leaves.
\<close>

lemma Sort_membership:
  "mset (TickEntities (SortForCacheLocality h b)) =
     (if length (filter (EntityIsActive h) (TickEntities b)) < 2 then mset (TickEntities b)
      else mset (filter (EntityIsActive h) (TickEntities b)))"
proof (cases "length (filter (EntityIsActive h) (TickEntities b)) < 2")
  case True
  then show ?thesis by (simp add: Sort_entities)
next
  case False
  then obtain v vs where f: "filter (EntityIsActive h) (TickEntities b) = v # vs"
    by (cases "filter (EntityIsActive h) (TickEntities b)") auto
  have "TickEntities (SortForCacheLocality h b) = v # GreedyPicks v vs"
    using False f by (simp add: Sort_entities)
  then have "mset (TickEntities (SortForCacheLocality h b)) = mset (v # vs)"
    by (simp add: mset_GreedyPicks)
  then show ?thesis using False by (simp only: f if_False)
qed

text \<open>
  Claim C3, at a failing input: a batch of three descriptors, the second one disabled.
  After the call the batch holds the first and the third descriptor only.
\<close>

theorem SortForCacheLocality_drops_disabled:
  "TickEntities (SortForCacheLocality DemoHost
     (DemoBatch FlagNone [DemoEntity 1 True, DemoEntity 2 False, DemoEntity 3 True]))
   = [DemoEntity 1 True, DemoEntity 3 True]"
  by (simp add: SortForCacheLocality_def DemoBatch_def DemoEntity_def DemoHost_def EntityIsActive_def
      IsValid_def RemoveAt_def GreedyChain.simps BestIdx_def)

section \<open>Properties of TickBatch and TickBatchParallel\<close>

lemma upto_as_upt: "[0 .. int m - 1] = map int [0 ..< m]"
proof (induction m)
  case 0
  then show ?case by simp
next
  case (Suc m)
  have "[0 .. int m] = [0 .. int m - 1] @ [int m]"
    by (simp add: upto_rec2)
  then show ?case using Suc by simp
qed

lemma chunks_concat:
  "concat (map (\<lambda>k. take e (drop (k * e) xs)) [0 ..< m]) = take (m * e) xs"
proof (induction m)
  case 0
  then show ?case by simp
next
  case (Suc m)
  have "take (m * e + e) xs = take (m * e) xs @ take e (drop (m * e) xs)"
    by (rule take_add)
  then show ?case using Suc by (simp add: add.commute)
qed

lemma Shard_as_chunk:
  assumes "1 \<le> e"
  shows "Shard xs e (int k) = take (nat e) (drop (k * nat e) xs)"
proof -
  define d where "d = nat e"
  have d: "e = int d" and d1: "1 \<le> d" using assms by (simp_all add: d_def)
  define s where "s = k * d"
  have ke: "int k * int d = int s" by (simp add: s_def)
  have start: "nat (int s) = s" by simp
  show ?thesis
  proof (cases "length xs \<le> s")
    case True
    then have "int s + int d \<ge> int (length xs)" "int s \<ge> int (length xs)" by linarith+
    then have "Shard xs e (int k) = []"
      unfolding Shard_def Let_def d ke by (simp add: min_def)
    then show ?thesis using True by (simp add: d s_def)
  next
    case False
    then have lt: "\<not> int (length xs) \<le> int s" by linarith
    show ?thesis
    proof (cases "s + d \<le> length xs")
      case True
      then have "int s + int d \<le> int (length xs)" by linarith
      then have "Shard xs e (int k) = take d (drop s xs)"
        unfolding Shard_def Let_def d ke using d1 by (simp add: min_def)
      then show ?thesis by (simp add: d s_def)
    next
      case big: False
      then have b1: "\<not> int s + int d \<le> int (length xs)" by linarith
      have b3: "nat (int (length xs) - int s) = length xs - s" by linarith
      have b4: "length xs - s \<le> d" using big by linarith
      have "Shard xs e (int k) = take (length xs - s) (drop s xs)"
        unfolding Shard_def Let_def d ke using b1 lt by (simp add: min_def b3)
      also have "\<dots> = take d (drop s xs)" using b4 by simp
      finally show ?thesis by (simp add: d s_def)
    qed
  qed
qed

lemma EntitiesPerThread_ge1: "1 \<le> EntitiesPerThread n N"
  by (simp add: EntitiesPerThread_def)

lemma EntitiesPerThread_covers:
  assumes "0 < N"
  shows "int n \<le> N * EntitiesPerThread n N"
proof -
  have "real n / real_of_int N \<le> real_of_int \<lceil>real n / real_of_int N\<rceil>" by (rule le_of_int_ceiling)
  also have "\<dots> \<le> real_of_int (EntitiesPerThread n N)" by (simp add: EntitiesPerThread_def)
  finally have "real n \<le> real_of_int N * real_of_int (EntitiesPerThread n N)"
    using assms by (simp add: divide_le_eq mult.commute)
  then have "real_of_int (int n) \<le> real_of_int (N * EntitiesPerThread n N)" by simp
  then show ?thesis by (simp only: of_int_le_iff)
qed

lemma Shards_concat:
  assumes "0 < N"
  shows "concat (Shards xs N) = xs"
proof -
  define e where "e = EntitiesPerThread (length xs) N"
  have e1: "1 \<le> e" by (simp add: e_def EntitiesPerThread_ge1)
  have "[0 .. N - 1] = map int [0 ..< nat N]"
    using assms upto_as_upt [of "nat N"] by simp
  then have "Shards xs N = map (Shard xs e) (map int [0 ..< nat N])"
    by (simp add: Shards_def e_def)
  also have "\<dots> = map (\<lambda>k. take (nat e) (drop (k * nat e) xs)) [0 ..< nat N]"
    using e1 by (simp add: Shard_as_chunk)
  finally have "concat (Shards xs N) = take (nat N * nat e) xs" by (simp add: chunks_concat)
  moreover have "length xs \<le> nat N * nat e"
  proof -
    have "int (length xs) \<le> N * e" using assms by (simp add: e_def EntitiesPerThread_covers)
    then have "nat (int (length xs)) \<le> nat (N * e)" by (rule nat_mono)
    then show ?thesis using assms by (simp add: nat_mult_distrib)
  qed
  ultimately show ?thesis by simp
qed

lemma Shards_length:
  assumes "0 < N" "v \<in> set (Shards xs N)"
  shows "length v \<le> nat (EntitiesPerThread (length xs) N)"
proof -
  define e where "e = EntitiesPerThread (length xs) N"
  have e1: "1 \<le> e" by (simp add: e_def EntitiesPerThread_ge1)
  have "[0 .. N - 1] = map int [0 ..< nat N]"
    using assms upto_as_upt [of "nat N"] by simp
  then have "Shards xs N = map (Shard xs e) (map int [0 ..< nat N])"
    by (simp add: Shards_def e_def)
  also have "\<dots> = map (\<lambda>k. take (nat e) (drop (k * nat e) xs)) [0 ..< nat N]"
    using e1 by (simp add: Shard_as_chunk)
  finally obtain k where "v = take (nat e) (drop (k * nat e) xs)" using assms(2) by auto
  then show ?thesis by (simp add: e_def)
qed

lemma ParallelActive_subset: "set (ParallelActive h b) \<subseteq> set (TickEntities b)"
  using Sort_subset [of h b] by (auto simp: ParallelActive_def)

lemma TickBatch_invoked:
  assumes "\<not> (EnumHasAnyFlags (Flags b) LowPrio \<and> CurrentTime h < 30)"
    and "BatchTickFunction b \<noteq> None"
  shows "Invoked (TickBatch h t b) = ParallelActive h b"
proof -
  obtain fn where fn: "BatchTickFunction b = Some fn" using assms(2) by auto
  show ?thesis
  proof (cases "TickEntities b = []")
    case True
    then show ?thesis using fn by (simp add: TickBatch_def Untouched_def ParallelActive_def Sort_empty)
  next
    case False
    then show ?thesis using fn assms(1)
      by (auto simp add: TickBatch_def Let_def Untouched_def ParallelActive_def Sort_fields
          Sort_LastFrameTickCount_update)
  qed
qed

lemma TickBatchParallel_sharded:
  assumes "TickEntities b \<noteq> []" "BatchTickFunction b \<noteq> None" "CanTickInParallel b"
    and "ParallelActive h b \<noteq> []" "\<not> list_ex (MightBeUnsafe h) (ParallelActive h b)"
  shows "Invoked (TickBatchParallel h t b) =
           filter (\<lambda>e. TickFunction e \<noteq> None)
             (concat (Shards (ParallelActive h b) (NumberOfWorkerThreadsToSpawn h)))"
  using assms
  by (auto simp add: TickBatchParallel_def Let_def CanTickInParallel_def ParallelActive_def
      Sort_LastFrameTickCount_update)

text \<open>
  What the two paths share. \<^verbatim>\<open>TickBatchParallel\<close> does exactly what \<^verbatim>\<open>TickBatch\<close> does
  when the batch is not parallel-eligible or when an active entity is a primitive, scene
  or character movement component. Otherwise, with at least one worker thread, the shards
  are consecutive pieces of the active entities that concatenate to exactly the active
  entities, each of at most \<open>max 1 \<lceil>active / N\<rceil>\<close> entities, and with every per-entity
  callable bound the entities invoked are those of the shards. The set of entities
  invoked on the parallel path is then the set invoked on the sequential path, provided
  the batch is not a low-priority batch ticked while the application clock reads less
  than 30 seconds.
\<close>

theorem TickBatchParallel_same_entities:
  assumes threads: "0 < NumberOfWorkerThreadsToSpawn h"
    and bound: "\<forall>e \<in> set (TickEntities b). TickFunction e \<noteq> None"
    and clock: "\<not> (EnumHasAnyFlags (Flags b) LowPrio \<and> CurrentTime h < 30)"
  shows "((\<not> CanTickInParallel b \<or> list_ex (MightBeUnsafe h) (ParallelActive h b))
            \<longrightarrow> TickBatchParallel h t b = TickBatch h t b)
         \<and> concat (Shards (ParallelActive h b) (NumberOfWorkerThreadsToSpawn h)) = ParallelActive h b
         \<and> (\<forall>v \<in> set (Shards (ParallelActive h b) (NumberOfWorkerThreadsToSpawn h)).
               int (length v) \<le> max 1 \<lceil>real (length (ParallelActive h b))
                                          / real_of_int (NumberOfWorkerThreadsToSpawn h)\<rceil>)
         \<and> (CanTickInParallel b \<and> BatchTickFunction b \<noteq> None \<and> ParallelActive h b \<noteq> []
              \<and> \<not> list_ex (MightBeUnsafe h) (ParallelActive h b)
            \<longrightarrow> Invoked (TickBatchParallel h t b)
                  = concat (Shards (ParallelActive h b) (NumberOfWorkerThreadsToSpawn h)))
         \<and> set (Invoked (TickBatchParallel h t b)) = set (Invoked (TickBatch h t b))"
proof (intro conjI)
  show "(\<not> CanTickInParallel b \<or> list_ex (MightBeUnsafe h) (ParallelActive h b))
          \<longrightarrow> TickBatchParallel h t b = TickBatch h t b"
    using TickBatchParallel_fallback by blast
  show cc: "concat (Shards (ParallelActive h b) (NumberOfWorkerThreadsToSpawn h)) = ParallelActive h b"
    using threads by (rule Shards_concat)
  show "\<forall>v \<in> set (Shards (ParallelActive h b) (NumberOfWorkerThreadsToSpawn h)).
               int (length v) \<le> max 1 \<lceil>real (length (ParallelActive h b))
                                          / real_of_int (NumberOfWorkerThreadsToSpawn h)\<rceil>"
  proof
    fix v assume "v \<in> set (Shards (ParallelActive h b) (NumberOfWorkerThreadsToSpawn h))"
    with threads have "length v \<le> nat (EntitiesPerThread (length (ParallelActive h b))
        (NumberOfWorkerThreadsToSpawn h))" by (rule Shards_length)
    then show "int (length v) \<le> max 1 \<lceil>real (length (ParallelActive h b))
                                          / real_of_int (NumberOfWorkerThreadsToSpawn h)\<rceil>"
      by (simp add: EntitiesPerThread_def)
  qed
  have all_bound: "\<forall>e \<in> set (ParallelActive h b). TickFunction e \<noteq> None"
    using bound ParallelActive_subset [of h b] by blast
  have sharded: "Invoked (TickBatchParallel h t b) = ParallelActive h b"
    if "CanTickInParallel b" "BatchTickFunction b \<noteq> None" "ParallelActive h b \<noteq> []"
      "\<not> list_ex (MightBeUnsafe h) (ParallelActive h b)"
  proof -
    have "TickEntities b \<noteq> []" using that(3) ParallelActive_subset [of h b] by auto
    then have "Invoked (TickBatchParallel h t b) =
           filter (\<lambda>e. TickFunction e \<noteq> None) (ParallelActive h b)"
      using that by (simp add: TickBatchParallel_sharded cc)
    then show ?thesis using all_bound by (simp only: filter_id_conv)
  qed
  show "CanTickInParallel b \<and> BatchTickFunction b \<noteq> None \<and> ParallelActive h b \<noteq> []
              \<and> \<not> list_ex (MightBeUnsafe h) (ParallelActive h b)
            \<longrightarrow> Invoked (TickBatchParallel h t b)
                  = concat (Shards (ParallelActive h b) (NumberOfWorkerThreadsToSpawn h))"
    using sharded cc by simp
  show "set (Invoked (TickBatchParallel h t b)) = set (Invoked (TickBatch h t b))"
  proof (cases "TickEntities b = [] \<or> BatchTickFunction b = None \<or> \<not> CanTickInParallel b")
    case True
    then have "TickBatchParallel h t b = TickBatch h t b"
      by (auto simp add: TickBatchParallel_def Let_def TickBatch_reset CanTickInParallel_def)
    then show ?thesis by simp
  next
    case False
    show ?thesis
    proof (cases "list_ex (MightBeUnsafe h) (ParallelActive h b)")
      case True
      then show ?thesis by (simp add: TickBatchParallel_fallback)
    next
      case safe: False
      have seq: "Invoked (TickBatch h t b) = ParallelActive h b"
        using clock False by (simp add: TickBatch_invoked)
      show ?thesis
      proof (cases "ParallelActive h b = []")
        case True
        then have "Invoked (TickBatchParallel h t b) = []" using False
          by (auto simp add: TickBatchParallel_def Let_def CanTickInParallel_def ParallelActive_def
              Sort_LastFrameTickCount_update Untouched_def)
        then show ?thesis using seq True by simp
      next
        case ne: False
        have "Invoked (TickBatchParallel h t b) = ParallelActive h b"
          using False ne safe by (simp add: sharded)
        then show ?thesis using seq by simp
      qed
    qed
  qed
qed

text \<open>Witness: three safe components, two threads, no low-priority flag.\<close>

theorem TickBatchParallel_same_entities_witness:
  "0 < NumberOfWorkerThreadsToSpawn DemoHost
   \<and> list_all (\<lambda>e. TickFunction e \<noteq> None) (TickEntities (DemoBatch UseParallel
         [DemoEntity 1 True, DemoEntity 2 True, DemoEntity 3 True]))
   \<and> \<not> (EnumHasAnyFlags (Flags (DemoBatch UseParallel
         [DemoEntity 1 True, DemoEntity 2 True, DemoEntity 3 True])) LowPrio
        \<and> CurrentTime DemoHost < 30)
   \<and> set (Invoked (TickBatchParallel DemoHost 0 (DemoBatch UseParallel
         [DemoEntity 1 True, DemoEntity 2 True, DemoEntity 3 True])))
     = set (Invoked (TickBatch DemoHost 0 (DemoBatch UseParallel
         [DemoEntity 1 True, DemoEntity 2 True, DemoEntity 3 True])))"
  using TickBatchParallel_same_entities [of DemoHost "DemoBatch UseParallel
         [DemoEntity 1 True, DemoEntity 2 True, DemoEntity 3 True]" 0]
  by (simp add: DemoHost_def DemoBatch_def DemoEntity_def EnumHasAnyFlags_def LowPrio_def
      UseParallel_def)

text \<open>
  Claim C2, at a failing input: a parallel-eligible low-priority batch with one active
  entity whose callable is bound, two worker threads, the application clock at 10
  seconds. \<^verbatim>\<open>TickBatch\<close> returns at its test of the low-priority flag and the clock, and
  invokes nothing. \<^verbatim>\<open>TickBatchParallel\<close> has no such test on its own path (it meets the
  test only when it falls back to \<^verbatim>\<open>TickBatch\<close>) and invokes the entity. The claim says
  that the two paths invoke the same set of entities.
\<close>

theorem TickBatchParallel_misses_low_priority_test:
  "CanTickInParallel (DemoBatch (UseParallel OR LowPrio) [DemoEntity 1 True])
   \<and> EnumHasAnyFlags (Flags (DemoBatch (UseParallel OR LowPrio) [DemoEntity 1 True])) LowPrio
   \<and> CurrentTime DemoHost < 30
   \<and> Invoked (TickBatchParallel DemoHost 0 (DemoBatch (UseParallel OR LowPrio) [DemoEntity 1 True]))
     = [DemoEntity 1 True]
   \<and> HostCalls (TickBatchParallel DemoHost 0 (DemoBatch (UseParallel OR LowPrio) [DemoEntity 1 True]))
     = [TickComponentCall 1]
   \<and> Invoked (TickBatch DemoHost 0 (DemoBatch (UseParallel OR LowPrio) [DemoEntity 1 True])) = []
   \<and> HostCalls (TickBatch DemoHost 0 (DemoBatch (UseParallel OR LowPrio) [DemoEntity 1 True])) = []"
  by (simp add: TickBatchParallel_def TickBatch_def Untouched_def SortForCacheLocality_def
      DemoBatch_def DemoEntity_def DemoHost_def EntityIsActive_def IsValid_def CanTickInParallel_def
      EnumHasAnyFlags_def LowPrio_def UseParallel_def MightBeUnsafe_def Shards_def Shard_def
      EntitiesPerThread_def RunShard_def Let_def upto.simps)

text \<open>
  Claim C10, amended. On the sequential path a low-priority batch ticked while the
  application clock reads less than 30 seconds has no entity invoked and no update call
  made, whatever the frame counter; its average tick time is left as it was, and its
  last-frame tick count is reset to 0 by the first statement of \<^verbatim>\<open>TickBatch\<close>. The
  cache-locality sort, when it is enabled and the batch has entities and a batch
  callable, has run before the batch is skipped: the batch is left as the sort leaves it,
  with the count at 0.
\<close>

theorem TickBatch_low_priority_skipped:
  assumes "EnumHasAnyFlags (Flags b) LowPrio" "CurrentTime h < 30"
  shows "Invoked (TickBatch h t b) = [] \<and> HostCalls (TickBatch h t b) = []
     \<and> AverageTickTimeNs (Batch (TickBatch h t b)) = AverageTickTimeNs b
     \<and> LastFrameTickCount (Batch (TickBatch h t b)) = 0
     \<and> Batch (TickBatch h t b) =
         (if bSortByCacheLocality b \<and> TickEntities b \<noteq> [] \<and> BatchTickFunction b \<noteq> None
          then SortForCacheLocality h b else b)\<lparr>LastFrameTickCount := 0\<rparr>"
  using assms
  by (auto simp add: TickBatch_def Let_def Untouched_def Sort_fields Sort_LastFrameTickCount_update
      split: option.splits)

text \<open>
  Witness: a low-priority batch of three descriptors, the second one disabled, the clock
  at 10 seconds. Nothing is invoked, and the sort that ran before the skip has left the
  first and the third descriptor in the batch.
\<close>

theorem TickBatch_low_priority_skipped_witness:
  "EnumHasAnyFlags (Flags (DemoBatch LowPrio
       [DemoEntity 1 True, DemoEntity 2 False, DemoEntity 3 True])) LowPrio
   \<and> CurrentTime DemoHost < 30
   \<and> Invoked (TickBatch DemoHost 0 (DemoBatch LowPrio
       [DemoEntity 1 True, DemoEntity 2 False, DemoEntity 3 True])) = []
   \<and> HostCalls (TickBatch DemoHost 0 (DemoBatch LowPrio
       [DemoEntity 1 True, DemoEntity 2 False, DemoEntity 3 True])) = []
   \<and> LastFrameTickCount (Batch (TickBatch DemoHost 0 (DemoBatch LowPrio
       [DemoEntity 1 True, DemoEntity 2 False, DemoEntity 3 True]))) = 0
   \<and> TickEntities (Batch (TickBatch DemoHost 0 (DemoBatch LowPrio
       [DemoEntity 1 True, DemoEntity 2 False, DemoEntity 3 True])))
     = [DemoEntity 1 True, DemoEntity 3 True]"
proof -
  have srt: "TickEntities (SortForCacheLocality DemoHost
       (DemoBatch LowPrio [DemoEntity 1 True, DemoEntity 2 False, DemoEntity 3 True]))
     = [DemoEntity 1 True, DemoEntity 3 True]"
    by (simp add: SortForCacheLocality_def DemoBatch_def DemoEntity_def DemoHost_def EntityIsActive_def
        IsValid_def RemoveAt_def GreedyChain.simps BestIdx_def)
  have flg: "EnumHasAnyFlags (Flags (DemoBatch LowPrio
       [DemoEntity 1 True, DemoEntity 2 False, DemoEntity 3 True])) LowPrio"
     "CurrentTime DemoHost < 30"
     "bSortByCacheLocality (DemoBatch LowPrio
       [DemoEntity 1 True, DemoEntity 2 False, DemoEntity 3 True])"
     "BatchTickFunction (DemoBatch LowPrio
       [DemoEntity 1 True, DemoEntity 2 False, DemoEntity 3 True]) \<noteq> None"
     "TickEntities (DemoBatch LowPrio
       [DemoEntity 1 True, DemoEntity 2 False, DemoEntity 3 True]) \<noteq> []"
    by (simp_all add: DemoHost_def DemoBatch_def EnumHasAnyFlags_def LowPrio_def)
  show ?thesis
    using TickBatch_low_priority_skipped [of "DemoBatch LowPrio
       [DemoEntity 1 True, DemoEntity 2 False, DemoEntity 3 True]" DemoHost 0] flg srt
    by simp
qed

text \<open>
  Claim C10 as stated fails: the batch ticked five entities in the frame before, and the
  skipped tick changes its last-frame tick count from 5 to 0.
\<close>

theorem TickBatch_low_priority_count_counterexample:
  "EnumHasAnyFlags (Flags (DemoBatch LowPrio [DemoEntity 1 True])) LowPrio
   \<and> CurrentTime DemoHost < 30
   \<and> LastFrameTickCount (DemoBatch LowPrio [DemoEntity 1 True]) = 5
   \<and> LastFrameTickCount (Batch (TickBatch DemoHost 0 (DemoBatch LowPrio [DemoEntity 1 True]))) = 0"
  by (simp add: TickBatch_def Untouched_def SortForCacheLocality_def DemoBatch_def DemoEntity_def
      DemoHost_def EnumHasAnyFlags_def LowPrio_def Let_def)

section \<open>Properties of the spatial grid\<close>


















section \<open>Properties of the optimizer\<close>

lemma Find_map_values:
  "Find (map (\<lambda>Pair. (fst Pair, f (snd Pair))) m) c = map_option f (Find m c)"
  by (induction m) (auto simp add: Find_def)

lemma or_and_absorb: "((f::'a::len word) OR c) AND c = c"
  by (rule bit_eqI) (auto simp add: bit_and_iff bit_or_iff)

lemma or_and_distrib: "((f::'a::len word) OR d) AND c = (f AND c) OR (d AND c)"
  by (rule bit_eqI) (auto simp add: bit_and_iff bit_or_iff)

lemma has_flag_or: "EnumHasAnyFlags (f OR c) c \<longleftrightarrow> c \<noteq> 0"
  by (simp add: EnumHasAnyFlags_def or_and_absorb)

lemma or_zero_left: "(a::'a::len word) OR b = 0 \<Longrightarrow> a = 0"
proof (rule bit_eqI)
  fix n
  assume "a OR b = 0"
  then have "bit (a OR b) n = bit (0::'a word) n" by simp
  then show "bit a n = bit (0::'a word) n" by (simp add: bit_or_iff)
qed

lemma has_flag_or_other: "EnumHasAnyFlags f c \<Longrightarrow> EnumHasAnyFlags (f OR d) c"
  unfolding EnumHasAnyFlags_def or_and_distrib using or_zero_left by blast

lemma AnalyzeBatch_parallel:
  "AverageTickTimeNs b > 1000 \<Longrightarrow> length (TickEntities b) > 10 \<Longrightarrow> CanTickInParallel (AnalyzeBatch b)"
  by (simp add: AnalyzeBatch_def Let_def CanTickInParallel_def has_flag_or has_flag_or_other UseParallel_def)

lemma AnalyzeBatch_small:
  "length (TickEntities b) < 5 \<Longrightarrow> \<not> bSortByCacheLocality (AnalyzeBatch b)"
  by (simp add: AnalyzeBatch_def Let_def)

text \<open>
  The analysis step alone. After one call of \<^verbatim>\<open>AnalyzeCurrentState\<close>, the step of
  \<^verbatim>\<open>OptimizeBatches\<close> that analyses every type batch, a batch whose average tick time is
  1500 ns and that holds 20 entities has the parallel flag set, and a batch that holds 3
  entities has cache-locality sorting disabled. The hints and the type-specific steps
  follow it; the last section has the whole pass.
\<close>

theorem AnalyzeCurrentState_scenario:
  assumes "Find (TypeBatches s) c = Some b"
  shows "\<exists>b'. Find (TypeBatches (AnalyzeCurrentState s)) c = Some b'
            \<and> (AverageTickTimeNs b = 1500 \<and> length (TickEntities b) = 20 \<longrightarrow> CanTickInParallel b')
            \<and> (length (TickEntities b) = 3 \<longrightarrow> \<not> bSortByCacheLocality b')"
proof -
  have "Find (TypeBatches (AnalyzeCurrentState s)) c = Some (AnalyzeBatch b)"
    using assms by (simp add: AnalyzeCurrentState_def Find_map_values)
  moreover have "AverageTickTimeNs b = 1500 \<and> length (TickEntities b) = 20 \<longrightarrow> CanTickInParallel (AnalyzeBatch b)"
    by (simp add: AnalyzeBatch_parallel)
  moreover have "length (TickEntities b) = 3 \<longrightarrow> \<not> bSortByCacheLocality (AnalyzeBatch b)"
    by (simp add: AnalyzeBatch_small)
  ultimately show ?thesis by blast
qed

text \<open>Both batches of the example system.\<close>

theorem AnalyzeCurrentState_scenario_witness:
  "Find (TypeBatches DemoAnalyzeSystem) 1
     = Some ((DemoBatch FlagNone (map (\<lambda>n. DemoEntity n True) [1 ..< 21]))\<lparr>AverageTickTimeNs := 1500\<rparr>)
   \<and> Find (TypeBatches DemoAnalyzeSystem) 2
     = Some (DemoBatch FlagNone [DemoEntity 30 True, DemoEntity 31 True, DemoEntity 32 True])
   \<and> (\<exists>b'. Find (TypeBatches (AnalyzeCurrentState DemoAnalyzeSystem)) 1 = Some b'
            \<and> CanTickInParallel b')
   \<and> (\<exists>b'. Find (TypeBatches (AnalyzeCurrentState DemoAnalyzeSystem)) 2 = Some b'
            \<and> \<not> bSortByCacheLocality b')"
  using AnalyzeCurrentState_scenario [of DemoAnalyzeSystem 1
          "(DemoBatch FlagNone (map (\<lambda>n. DemoEntity n True) [1 ..< 21]))\<lparr>AverageTickTimeNs := 1500\<rparr>"]
        AnalyzeCurrentState_scenario [of DemoAnalyzeSystem 2
          "DemoBatch FlagNone [DemoEntity 30 True, DemoEntity 31 True, DemoEntity 32 True]"]
  by (auto simp add: DemoAnalyzeSystem_def Find_def DemoBatch_def)

lemma and_not_and: "((f::'a::len word) AND NOT c) AND c = 0"
  by (rule bit_eqI) (auto simp add: bit_and_iff bit_not_iff)

lemma OptimizeCharacterMovementBatch_sequential:
  "\<not> CanTickInParallel (OptimizeCharacterMovementBatch b)"
proof -
  have "SpatialAware AND UseParallel = 0" by (simp add: SpatialAware_def UseParallel_def)
  then have "((Flags b AND NOT UseParallel) OR SpatialAware) AND UseParallel = 0"
    by (simp add: or_and_distrib and_not_and)
  then show ?thesis
    by (simp add: OptimizeCharacterMovementBatch_def CanTickInParallel_def EnumHasAnyFlags_def)
qed

section \<open>Properties of the priority sort\<close>

lemma mset_InsertBy: "mset (InsertBy before x ys) = add_mset x (mset ys)"
  by (induction ys) auto

lemma mset_SortBy: "mset (SortBy before xs) = mset xs"
  by (induction xs) (auto simp add: SortBy_def mset_InsertBy)

lemma set_InsertBy: "set (InsertBy before x ys) = insert x (set ys)"
  using mset_InsertBy [of before x ys] by (metis set_mset_mset set_mset_add_mset_insert)

lemma sorted_InsertBy:
  fixes key :: "'a \<Rightarrow> 'k::linorder"
  assumes "\<forall>a \<in> insert x (set ys). \<forall>b \<in> insert x (set ys). before a b \<longleftrightarrow> key a < key b"
    and "sorted_wrt (\<lambda>a b. key a \<le> key b) ys"
  shows "sorted_wrt (\<lambda>a b. key a \<le> key b) (InsertBy before x ys)"
  using assms
proof (induction ys)
  case Nil
  then show ?case by simp
next
  case (Cons y ys)
  show ?case
  proof (cases "before y x")
    case True
    then have yx: "key y < key x" using Cons.prems(1) by simp
    have "sorted_wrt (\<lambda>a b. key a \<le> key b) (InsertBy before x ys)"
      using Cons.prems by (intro Cons.IH) auto
    moreover have "\<forall>z \<in> set (InsertBy before x ys). key y \<le> key z"
      using Cons.prems(2) yx by (auto simp add: set_InsertBy)
    ultimately show ?thesis using True by simp
  next
    case False
    then have "key x \<le> key y" using Cons.prems(1) by auto
    then show ?thesis using False Cons.prems(2) by auto
  qed
qed

lemma sorted_SortBy:
  fixes key :: "'a \<Rightarrow> 'k::linorder"
  assumes "\<forall>a \<in> set xs. \<forall>b \<in> set xs. before a b \<longleftrightarrow> key a < key b"
  shows "sorted_wrt (\<lambda>a b. key a \<le> key b) (SortBy before xs)"
  using assms
proof (induction xs)
  case Nil
  then show ?case by (simp add: SortBy_def)
next
  case (Cons x xs)
  have s: "set (SortBy before xs) = set xs" using mset_SortBy [of before xs] by (metis set_mset_mset)
  have "sorted_wrt (\<lambda>a b. key a \<le> key b) (SortBy before xs)" using Cons by simp
  then have "sorted_wrt (\<lambda>a b. key a \<le> key b) (InsertBy before x (SortBy before xs))"
    using Cons.prems by (intro sorted_InsertBy) (auto simp add: s)
  then show ?case by (simp add: SortBy_def)
qed

lemma BatchBefore_rank: "BatchBefore A B \<longleftrightarrow> BatchRank A < BatchRank B"
  by (auto simp add: BatchBefore_def BatchRank_def Let_def less_prod_def)

lemma InPriorityOrder_rank: "InPriorityOrder A B \<longleftrightarrow> BatchRank A \<le> BatchRank B"
  by (auto simp add: InPriorityOrder_def BatchRank_def less_eq_prod_def)

lemma Find_map_groups:
  "Find (map (\<lambda>GroupPair. (fst GroupPair, f (snd GroupPair))) m) g = map_option f (Find m g)"
  by (induction m) (auto simp add: Find_def)

text \<open>
  Claim C6, amended. For every execution phase whose batch pointers all designate
  batches, the per-frame sort permutes the batches of the phase and leaves them ordered
  with the high-priority batches first, the low-priority batches last, and batches of
  equal flags by descending number of entities in the batch (\<^verbatim>\<open>TickEntities.Num()\<close>): the
  count of entities ticked in the last frame plays no part. Whether batches that the
  predicate does not order keep their relative order is a property of the engine's
  \<^verbatim>\<open>TArray::Sort\<close>, which the source does not fix.
\<close>

theorem SortBatchesByPriority_order:
  assumes "Find (GroupedBatches s) g = Some l"
    and "\<forall>c \<in> set l. Find (TypeBatches s) c \<noteq> None"
  shows "\<exists>l'. Find (GroupedBatches (SortBatchesByPriority s)) g = Some l'
           \<and> mset l' = mset l
           \<and> TypeBatches (SortBatchesByPriority s) = TypeBatches s
           \<and> sorted_wrt (\<lambda>a b. \<exists>A B. Find (TypeBatches s) a = Some A \<and> Find (TypeBatches s) b = Some B
                                    \<and> InPriorityOrder A B) l'"
proof -
  define m where "m = TypeBatches s"
  define key where "key = (\<lambda>c. BatchRank (the (Find m c)))"
  define l' where "l' = SortBy (PtrBefore m) l"
  have ex: "\<exists>A. Find m c = Some A" if "c \<in> set l" for c
    using assms(2) that unfolding m_def by auto
  have found: "Find (GroupedBatches (SortBatchesByPriority s)) g = Some l'"
    using assms(1) by (simp add: SortBatchesByPriority_def Find_map_groups l'_def m_def)
  have ms: "mset l' = mset l" by (simp add: l'_def mset_SortBy)
  then have sets: "set l' = set l" by (metis set_mset_mset)
  have "\<forall>a \<in> set l. \<forall>b \<in> set l. PtrBefore m a b \<longleftrightarrow> key a < key b"
  proof (intro ballI)
    fix a b assume "a \<in> set l" "b \<in> set l"
    then obtain A B where "Find m a = Some A" "Find m b = Some B"
      using ex by blast
    then show "PtrBefore m a b \<longleftrightarrow> key a < key b"
      by (simp add: PtrBefore_def key_def BatchBefore_rank)
  qed
  then have srt: "sorted_wrt (\<lambda>a b. key a \<le> key b) l'"
    unfolding l'_def by (rule sorted_SortBy)
  have "sorted_wrt (\<lambda>a b. \<exists>A B. Find m a = Some A \<and> Find m b = Some B \<and> InPriorityOrder A B) l'"
  proof (rule sorted_wrt_mono_rel [OF _ srt])
    fix a b assume "a \<in> set l'" "b \<in> set l'" and le: "key a \<le> key b"
    then obtain A B where AB: "Find m a = Some A" "Find m b = Some B"
      using ex sets by blast
    then have "InPriorityOrder A B" using le by (simp add: key_def InPriorityOrder_rank)
    with AB show "\<exists>A B. Find m a = Some A \<and> Find m b = Some B \<and> InPriorityOrder A B" by blast
  qed
  then show ?thesis using found ms by (auto simp add: m_def SortBatchesByPriority_def)
qed

text \<open>Witness: the group of the two example batches.\<close>

theorem SortBatchesByPriority_order_witness:
  "Find (GroupedBatches DemoSortSystem) TG_PrePhysics = Some [1, 2]
   \<and> list_all (\<lambda>c. Find (TypeBatches DemoSortSystem) c \<noteq> None) [1, 2]
   \<and> (\<exists>l'. Find (GroupedBatches (SortBatchesByPriority DemoSortSystem)) TG_PrePhysics = Some l'
           \<and> mset l' = mset [1, 2])"
  using SortBatchesByPriority_order [of DemoSortSystem TG_PrePhysics "[1, 2]"]
  by (auto simp add: DemoSortSystem_def Find_def)

text \<open>
  Claim C6 as stated fails: the two batches have equal flags, and the batch that ticked
  no entity in the last frame is sorted before the batch that ticked five, because it
  holds more entities.
\<close>

theorem SortBatchesByPriority_count_counterexample:
  "Find (GroupedBatches (SortBatchesByPriority DemoSortSystem)) TG_PrePhysics = Some [2, 1]
   \<and> Find (TypeBatches (SortBatchesByPriority DemoSortSystem)) 2
       = Some ((DemoBatch FlagNone [DemoEntity 2 True, DemoEntity 3 True])\<lparr>LastFrameTickCount := 0\<rparr>)
   \<and> Find (TypeBatches (SortBatchesByPriority DemoSortSystem)) 1
       = Some (DemoBatch FlagNone [DemoEntity 1 True])
   \<and> LastFrameTickCount (DemoBatch FlagNone [DemoEntity 1 True]) = 5"
  by (simp add: SortBatchesByPriority_def DemoSortSystem_def Find_def SortBy_def PtrBefore_def
      BatchBefore_def DemoBatch_def EnumHasAnyFlags_def FlagNone_def HighPrio_def LowPrio_def)

section \<open>Properties of the deferred queue\<close>

lemma Find_SetValue: "Find (SetValue m k v) k' = (if k' = k then Some v else Find m k')"
  by (induction m) (auto simp add: Find_def)

lemma count_list_update:
  assumes "i < length xs" "P y = P (xs ! i)"
  shows "length (filter P (xs[i := y])) = length (filter P xs)"
proof -
  have "map P (xs[i := y]) = map P xs"
    using assms by (simp add: map_update list_update_same_conv)
  then have "length (filter id (map P (xs[i := y]))) = length (filter id (map P xs))" by simp
  then show ?thesis by (simp add: filter_map comp_def)
qed

lemma count_RemoveAt:
  assumes "i < length xs"
  shows "length (filter P (RemoveAt i xs)) = length (filter P xs) - (if P (xs ! i) then 1 else 0)"
proof -
  have "xs = take i xs @ xs ! i # drop (Suc i) xs" using assms by (rule id_take_nth_drop)
  then have "length (filter P xs) = length (filter P (take i xs @ xs ! i # drop (Suc i) xs))" by simp
  then show ?thesis by (simp add: RemoveAt_def)
qed

lemma Occurrences_StoreEntity:
  assumes "Deref (TypeBatches s) p = Some e" "Object e' = Object e"
  shows "Occurrences n (s\<lparr>TypeBatches := StoreEntity (TypeBatches s) p e'\<rparr>) c = Occurrences n s c"
proof (cases p)
  case NullEntity
  then show ?thesis by (simp add: Occurrences_def)
next
  case (EntityAt c0 i)
  then obtain b where b: "Find (TypeBatches s) c0 = Some b" and i: "i < length (TickEntities b)"
    and e: "e = TickEntities b ! i"
    using assms(1) by (auto split: option.splits if_splits)
  have "length (filter (\<lambda>e. Object e = Some n) ((TickEntities b)[i := e']))
      = length (filter (\<lambda>e. Object e = Some n) (TickEntities b))"
    using i assms(2) e by (intro count_list_update) simp_all
  then show ?thesis using EntityAt b by (simp add: Occurrences_def Find_SetValue)
qed

lemma Occurrences_grid_only:
  "Occurrences n (s\<lparr>SpatialBatch := g\<rparr>) c = Occurrences n s c"
  "Occurrences n (s\<lparr>Stats := st\<rparr>) c = Occurrences n s c"
  "Occurrences n (s\<lparr>GroupedBatches := gb\<rparr>) c = Occurrences n s c"
  "Occurrences n (s\<lparr>PendingRegistrations := pr\<rparr>) c = Occurrences n s c"
  "Occurrences n (s\<lparr>PendingUnregistrations := pu\<rparr>) c = Occurrences n s c"
  by (simp_all add: Occurrences_def)

lemma Occurrences_AddEntity: "Occurrences n (AddEntity p s) c = Occurrences n s c"
proof (cases "Deref (TypeBatches s) p")
  case None
  then show ?thesis by (simp add: AddEntity_def)
next
  case (Some e)
  show ?thesis
  proof (cases "Object e = None")
    case True
    then show ?thesis using Some by (simp add: AddEntity_def)
  next
    case False
    have "Occurrences n (s\<lparr>TypeBatches := StoreEntity (TypeBatches s) p
        (e\<lparr>SpatialBucketId := CalculateGridCell (SpatialBatch s) (Position e)\<rparr>)\<rparr>) c = Occurrences n s c"
      using Some by (intro Occurrences_StoreEntity) simp_all
    then show ?thesis using Some False
      by (simp add: AddEntity_def Let_def Occurrences_def)
  qed
qed

lemma RemoveEntity_batches: "TypeBatches (RemoveEntity p s) = TypeBatches s"
  by (simp add: RemoveEntity_def Let_def split: option.splits)

lemma Occurrences_AddToBatch:
  "Occurrences n (AddToBatch c0 name grp flags fn E s) c =
     Occurrences n s c + (if c = c0 \<and> Object E = Some n then 1 else 0)"
proof -
  define found where "found = (case Find (TypeBatches s) c0 of None \<Rightarrow> NewBatch | Some b \<Rightarrow> b)"
  define b1 where "b1 = (if TypeName found = []
                then found\<lparr>TypeName := name, TickGroup := grp, Flags := flags,
                           BatchTickFunction := Some fn\<rparr>
                else found)"
  define groups where "groups = (if TypeName found = []
                    then SetValue (GroupedBatches s) (TickGroup b1)
                           ((case Find (GroupedBatches s) (TickGroup b1) of
                               None \<Rightarrow> [] | Some l \<Rightarrow> l) @ [c0])
                    else GroupedBatches s)"
  define b2 where "b2 = b1\<lparr>TickEntities := TickEntities b1 @ [E]\<rparr>"
  define s1 where "s1 = s\<lparr>TypeBatches := SetValue (TypeBatches s) c0 b2, GroupedBatches := groups\<rparr>"
  define s2 where "s2 = (if EnumHasAnyFlags flags SpatialAware \<and> SpatialLockValid (SpatialBatch s1)
                then AddEntity (EntityAt c0 (length (TickEntities b2) - 1)) s1
                else s1)"
  have res: "AddToBatch c0 name grp flags fn E s =
      s2\<lparr>Stats := (Stats s2)\<lparr>TotalRegisteredEntities := TotalRegisteredEntities (Stats s2) + 1\<rparr>\<rparr>"
    by (simp add: AddToBatch_def Let_def found_def b1_def groups_def b2_def s1_def s2_def)
  have ents: "TickEntities b1 = TickEntities found" by (simp add: b1_def)
  have "length (filter (\<lambda>e. Object e = Some n) (TickEntities found)) = Occurrences n s c0"
    by (simp add: found_def Occurrences_def NewBatch_def split: option.splits)
  then have o1: "Occurrences n s1 c = Occurrences n s c + (if c = c0 \<and> Object E = Some n then 1 else 0)"
    by (simp add: s1_def Occurrences_def Find_SetValue b2_def ents)
  have "Occurrences n s2 c = Occurrences n s1 c"
    by (simp add: s2_def Occurrences_AddEntity)
  then show ?thesis using o1 by (simp add: res Occurrences_grid_only)
qed

lemma Occurrences_ProcessRegistration:
  "Occurrences n (ProcessRegistration h r s) c =
     Occurrences n s c
     + (if fst r = Some n \<and> Registrable h n \<and> c = GetClass h n then 1 else 0)"
proof (cases "fst r")
  case None
  then show ?thesis by (simp add: ProcessRegistration_def)
next
  case (Some k)
  then show ?thesis
    by (auto simp add: ProcessRegistration_def Occurrences_AddToBatch Registrable_def
        ComponentEntityData_def ActorEntityData_def)
qed

lemma Occurrences_registrations:
  "Occurrences n (fold (ProcessRegistration h) regs s) c =
     Occurrences n s c
     + (if Registrable h n \<and> c = GetClass h n
        then length (filter (\<lambda>r. fst r = Some n) regs) else 0)"
  by (induction regs arbitrary: s) (auto simp add: Occurrences_ProcessRegistration)

lemma FirstIndexOf_Some:
  "FirstIndexOf q es = Some i \<Longrightarrow> i < length es \<and> Object (es ! i) = q"
proof (induction es arbitrary: i)
  case Nil
  then show ?case by simp
next
  case (Cons e es)
  show ?case
  proof (cases "Object e = q")
    case True
    then show ?thesis using Cons.prems by simp
  next
    case False
    then obtain j where j: "FirstIndexOf q es = Some j" "i = Suc j" using Cons.prems by auto
    then show ?thesis using Cons.IH [of j] by simp
  qed
qed

lemma FirstIndexOf_None: "FirstIndexOf q es = None \<Longrightarrow> filter (\<lambda>e. Object e = q) es = []"
  by (induction es) (auto split: if_splits)

lemma Occurrences_UnregisterFromBatch:
  "Occurrences n (UnregisterFromBatch q c0 s) c =
     (if q = Some n \<and> c = c0 then Occurrences n s c - 1 else Occurrences n s c)"
proof (cases "Find (TypeBatches s) c0")
  case None
  then show ?thesis by (simp add: UnregisterFromBatch_def Occurrences_def)
next
  case (Some b)
  show ?thesis
  proof (cases "FirstIndexOf q (TickEntities b)")
    case None
    then have "filter (\<lambda>e. Object e = q) (TickEntities b) = []" by (rule FirstIndexOf_None)
    then show ?thesis using Some None by (auto simp add: UnregisterFromBatch_def Occurrences_def)
  next
    case (Some i)
    then have i: "i < length (TickEntities b)" "Object (TickEntities b ! i) = q"
      using FirstIndexOf_Some by blast+
    define s1 where "s1 = (if SpatialLockValid (SpatialBatch s) then RemoveEntity (EntityAt c0 i) s else s)"
    have tb: "TypeBatches s1 = TypeBatches s" by (simp add: s1_def RemoveEntity_batches)
    have res: "UnregisterFromBatch q c0 s =
        s1\<lparr>TypeBatches := SetValue (TypeBatches s1) c0 (b\<lparr>TickEntities := RemoveAt i (TickEntities b)\<rparr>),
           Stats := (Stats s1)\<lparr>TotalRegisteredEntities := TotalRegisteredEntities (Stats s1) - 1\<rparr>\<rparr>"
      using \<open>Find (TypeBatches s) c0 = Some b\<close> Some
      by (simp add: UnregisterFromBatch_def Let_def s1_def)
    have cnt: "length (filter (\<lambda>e. Object e = Some n) (RemoveAt i (TickEntities b)))
        = length (filter (\<lambda>e. Object e = Some n) (TickEntities b)) - (if q = Some n then 1 else 0)"
      using count_RemoveAt [OF i(1), of "\<lambda>e. Object e = Some n"] i(2) by simp
    show ?thesis
      using \<open>Find (TypeBatches s) c0 = Some b\<close> cnt
      by (simp add: res Occurrences_def Find_SetValue tb)
  qed
qed

lemma Occurrences_unregister_fold:
  "Occurrences n (fold (UnregisterFromBatch q) ks s) c =
     (if q = Some n then Occurrences n s c - count_list ks c else Occurrences n s c)"
  by (induction ks arbitrary: s) (auto simp add: Occurrences_UnregisterFromBatch)

lemma Occurrences_no_key: "c \<notin> fst ` set (TypeBatches s) \<Longrightarrow> Occurrences n s c = 0"
  by (simp add: Occurrences_def Find_def map_of_eq_None_iff [THEN iffD2])


lemma Occurrences_ProcessUnregistration_le:
  "Occurrences n (ProcessUnregistration h q s) c \<le> Occurrences n s c"
  by (simp add: ProcessUnregistration_def Occurrences_unregister_fold)

lemma Occurrences_ProcessUnregistration_self:
  assumes "ObjectIsValid h n"
  shows "Occurrences n (ProcessUnregistration h (Some n) s) c \<le> Occurrences n s c - 1"
proof (cases "c \<in> fst ` set (TypeBatches s)")
  case True
  then have "count_list (map fst (TypeBatches s)) c \<noteq> 0"
    by (simp add: count_list_0_iff)
  then have "1 \<le> count_list (map fst (TypeBatches s)) c" by simp
  then have "Occurrences n s c - count_list (map fst (TypeBatches s)) c \<le> Occurrences n s c - 1"
    by (rule diff_le_mono2)
  then show ?thesis using assms
    by (simp add: ProcessUnregistration_def Occurrences_unregister_fold IsValid_def)
next
  case False
  then have "Occurrences n s c = 0" by (rule Occurrences_no_key)
  then show ?thesis using Occurrences_ProcessUnregistration_le [of n h "Some n" s c] by simp
qed


lemma Occurrences_unregistrations_le:
  "Occurrences n (fold (ProcessUnregistration h) us s) c \<le> Occurrences n s c"
proof (induction us arbitrary: s)
  case Nil
  then show ?case by simp
next
  case (Cons u us)
  have "Occurrences n (fold (ProcessUnregistration h) us (ProcessUnregistration h u s)) c
      \<le> Occurrences n (ProcessUnregistration h u s) c" by (rule Cons.IH)
  also have "\<dots> \<le> Occurrences n s c" by (rule Occurrences_ProcessUnregistration_le)
  finally show ?case by simp
qed

lemma AddEntity_pending:
  "PendingUnregistrations (AddEntity p s) = PendingUnregistrations s"
  by (cases "Deref (TypeBatches s) p") (simp_all add: AddEntity_def Let_def)

lemma AddToBatch_pending:
  "PendingUnregistrations (AddToBatch c name grp flags fn E s) = PendingUnregistrations s"
  by (simp add: AddToBatch_def Let_def AddEntity_pending)

lemma ProcessRegistration_pending:
  "PendingUnregistrations (ProcessRegistration h r s) = PendingUnregistrations s"
  by (cases "fst r") (simp_all add: ProcessRegistration_def AddToBatch_pending)

lemma fold_pending_regs:
  "PendingUnregistrations (fold (ProcessRegistration h) regs s) = PendingUnregistrations s"
  by (induction regs arbitrary: s) (simp_all add: ProcessRegistration_pending)

lemma Deref_member:
  assumes "Deref m p = Some e"
  shows "\<exists>c b. Find m c = Some b \<and> e \<in> set (TickEntities b)"
proof (cases p)
  case NullEntity
  then show ?thesis using assms by simp
next
  case (EntityAt c i)
  then obtain b where "Find m c = Some b" "i < length (TickEntities b)" "e = TickEntities b ! i"
    using assms by (auto split: option.splits if_splits)
  then have "Find m c = Some b \<and> e \<in> set (TickEntities b)" by simp
  then show ?thesis by blast
qed

lemma Occurrences_zero_no_descriptor:
  assumes "\<forall>c. Occurrences n s c = 0" "Deref (TypeBatches s) p = Some e"
  shows "Object e \<noteq> Some n"
proof
  assume o: "Object e = Some n"
  obtain c b where cb: "Find (TypeBatches s) c = Some b" "e \<in> set (TickEntities b)"
    using Deref_member [OF assms(2)] by blast
  then have "e \<in> set (filter (\<lambda>e. Object e = Some n) (TickEntities b))" using o by simp
  then have "filter (\<lambda>e. Object e = Some n) (TickEntities b) \<noteq> []"
    by (metis empty_iff empty_set)
  then have "Occurrences n s c \<noteq> 0" using cb(1) by (simp add: Occurrences_def)
  then show False using assms(1) by simp
qed

lemma flush_queues:
  "PendingRegistrations (ProcessDeferredOperations h s) = []"
  "PendingUnregistrations (ProcessDeferredOperations h s) = []"
  by (simp_all add: ProcessDeferredOperations_def ProcessDeferredOperationsImpl_def Let_def)

lemma Occurrences_flush:
  "Occurrences n (ProcessDeferredOperations h s) c =
     Occurrences n (fold (ProcessUnregistration h) (PendingUnregistrations s)
                      (fold (ProcessRegistration h) (PendingRegistrations s) s)) c"
  by (simp add: ProcessDeferredOperations_def ProcessDeferredOperationsImpl_def Let_def
      fold_pending_regs Occurrences_grid_only)

lemma no_entry_count:
  "Some n \<notin> fst ` set regs \<Longrightarrow> length (filter (\<lambda>r. fst r = Some n) regs) = 0"
  by (induction regs) auto

text \<open>
  What the flush guarantees in general. Take an object with no descriptor in any batch
  and no registration pending. Enqueue its registration (\<^verbatim>\<open>RegisterComponent\<close>) and then
  its unregistration (\<^verbatim>\<open>UnregisterComponent\<close>), whatever else is pending, and flush,
  whatever the host says about the object at either time. After the flush no batch holds
  a descriptor of the object, no pointer that designates a slot resolves to a descriptor
  of it, and both queues are empty. This says nothing of a pointer that designates no
  slot any more, and the grid can be left with one, as the example that follows the
  witness shows.
\<close>

theorem register_then_unregister:
  assumes fresh: "\<forall>c. Occurrences n s c = 0"
    and noreg: "Some n \<notin> fst ` set (PendingRegistrations s)"
  shows "(\<forall>c. Occurrences n (ProcessDeferredOperations h'
                  (UnregisterComponent h (Some n) (RegisterComponent h (Some n) flags s))) c = 0)
       \<and> (\<forall>p e. Deref (TypeBatches (ProcessDeferredOperations h'
                  (UnregisterComponent h (Some n) (RegisterComponent h (Some n) flags s)))) p = Some e
              \<longrightarrow> Object e \<noteq> Some n)
       \<and> PendingRegistrations (ProcessDeferredOperations h'
                  (UnregisterComponent h (Some n) (RegisterComponent h (Some n) flags s))) = []
       \<and> PendingUnregistrations (ProcessDeferredOperations h'
                  (UnregisterComponent h (Some n) (RegisterComponent h (Some n) flags s))) = []"
proof -
  define q where "q = UnregisterComponent h (Some n) (RegisterComponent h (Some n) flags s)"
  define s' where "s' = ProcessDeferredOperations h' q"
  define r where "r = fold (ProcessRegistration h') (PendingRegistrations q) q"
  have occ_q: "Occurrences n q c = 0" for c
    using fresh by (simp add: q_def UnregisterComponent_def RegisterComponent_def Let_def
        Occurrences_grid_only)
  have zero: "Occurrences n s' c = 0" for c
  proof (cases "ObjectIsValid h n")
    case False
    then have "q = s" by (simp add: q_def UnregisterComponent_def RegisterComponent_def IsValid_def)
    then have "Occurrences n r c = 0"
      using fresh noreg by (simp add: r_def Occurrences_registrations no_entry_count)
    moreover have "Occurrences n s' c \<le> Occurrences n r c"
      unfolding s'_def r_def Occurrences_flush by (rule Occurrences_unregistrations_le)
    ultimately show ?thesis by simp
  next
    case True
    obtain f' where regs: "PendingRegistrations q = PendingRegistrations s @ [(Some n, f')]"
      and unregs: "PendingUnregistrations q = PendingUnregistrations s @ [Some n]"
      using True by (simp add: q_def UnregisterComponent_def RegisterComponent_def IsValid_def Let_def)
    have "length (filter (\<lambda>r. fst r = Some n) (PendingRegistrations q)) = 1"
      using noreg by (simp add: regs no_entry_count)
    then have r1: "Occurrences n r c \<le> 1" and r0: "\<not> ObjectIsValid h' n \<Longrightarrow> Occurrences n r c = 0"
      using occ_q by (simp_all add: r_def Occurrences_registrations Registrable_def)
    define u where "u = fold (ProcessUnregistration h') (PendingUnregistrations s) r"
    have u_le: "Occurrences n u c \<le> Occurrences n r c"
      unfolding u_def by (rule Occurrences_unregistrations_le)
    have s'_eq: "Occurrences n s' c = Occurrences n (ProcessUnregistration h' (Some n) u) c"
      by (simp add: s'_def Occurrences_flush unregs u_def r_def)
    show ?thesis
    proof (cases "ObjectIsValid h' n")
      case True
      have "Occurrences n (ProcessUnregistration h' (Some n) u) c \<le> Occurrences n u c - 1"
        using True by (rule Occurrences_ProcessUnregistration_self)
      then show ?thesis using s'_eq u_le r1 by simp
    next
      case False
      have "Occurrences n (ProcessUnregistration h' (Some n) u) c \<le> Occurrences n u c"
        by (rule Occurrences_ProcessUnregistration_le)
      then show ?thesis using s'_eq u_le r0 [OF False] by simp
    qed
  qed
  then have "\<forall>c. Occurrences n s' c = 0" by simp
  moreover from this have "\<forall>p e. Deref (TypeBatches s') p = Some e \<longrightarrow> Object e \<noteq> Some n"
    using Occurrences_zero_no_descriptor by blast
  ultimately show ?thesis unfolding s'_def q_def by (simp add: flush_queues)
qed

text \<open>Witness: component 1, registered as spatially aware, on the initial system.\<close>

theorem register_then_unregister_witness:
  "(\<forall>c. Occurrences 1 InitialSystem c = 0)
   \<and> Some 1 \<notin> fst ` set (PendingRegistrations InitialSystem)
   \<and> (\<forall>c. Occurrences 1 (ProcessDeferredOperations DemoHost
                  (UnregisterComponent DemoHost (Some 1)
                     (RegisterComponent DemoHost (Some 1) SpatialAware InitialSystem))) c = 0)
   \<and> PendingRegistrations (ProcessDeferredOperations DemoHost
                  (UnregisterComponent DemoHost (Some 1)
                     (RegisterComponent DemoHost (Some 1) SpatialAware InitialSystem))) = []"
  using register_then_unregister [of 1 InitialSystem DemoHost DemoHost SpatialAware]
  by (simp add: Occurrences_def InitialSystem_def Find_def)

lemmas flush_defs =
  ProcessDeferredOperations_def ProcessDeferredOperationsImpl_def
  ProcessRegistration_def ProcessUnregistration_def AddToBatch_def UnregisterFromBatch_def
  AddEntity_def RemoveEntity_def RemoveAt_def RemoveKey_def
  RegisterComponent_def UnregisterComponent_def IsUnsafeComponent_def InitialSystem_def NewBatch_def
  ComponentEntityData_def DetermineBestTickFunction_def CalculateGridCell_def PackCell_def
  IsValid_def Find_def Let_def DemoHost_def EnumHasAnyFlags_def
  FlagNone_def UseParallel_def SpatialAware_def

text \<open>
  Claim C7, at a failing input. On the initial system, components 2 and 1 are registered
  as spatially aware and then unregistered, in this order, and the queues are flushed.
  The registrations put the descriptor of component 2 in slot 0 and that of component 1
  in slot 1 of the batch of class 1, and the pointers to both slots in cell 0 of the
  grid. The unregistration of component 2 takes the pointer to slot 0 out of the cell and
  \<^verbatim>\<open>RemoveAt\<close> moves the descriptor of component 1 down to slot 0; the unregistration of
  component 1 then asks the grid to remove \<^verbatim>\<open>&Batch.TickEntities[0]\<close>, which the cell does
  not hold. After the flush the batch is empty and cell 0 still holds the pointer to slot
  1, under which component 1 was added to the grid; \<^verbatim>\<open>TickAllGrids\<close> reads through it.
\<close>

theorem register_then_unregister_stale_pointer:
  "PendingRegistrations DemoQueued = [(Some 2, SpatialAware), (Some 1, SpatialAware)]
   \<and> PendingUnregistrations DemoQueued = [Some 2, Some 1]
   \<and> TypeBatches DemoQueued = [] \<and> GridCells (SpatialBatch DemoQueued) = []
   \<and> map_option Object (Deref (TypeBatches (fold (ProcessRegistration DemoHost)
         (PendingRegistrations DemoQueued) DemoQueued)) (EntityAt 1 1)) = Some (Some 1)
   \<and> GridCells (SpatialBatch (fold (ProcessRegistration DemoHost)
         (PendingRegistrations DemoQueued) DemoQueued)) = [(0, [EntityAt 1 0, EntityAt 1 1])]
   \<and> GridCells (SpatialBatch (ProcessDeferredOperations DemoHost DemoQueued)) = [(0, [EntityAt 1 1])]
   \<and> map_option TickEntities (Find (TypeBatches (ProcessDeferredOperations DemoHost DemoQueued)) 1)
       = Some []"
  by (simp add: DemoQueued_def flush_defs)




section \<open>Properties of Tick\<close>

lemma TickBatch_Flags: "Flags (Batch (TickBatch h t b)) = Flags b"
  by (simp add: TickBatch_def Let_def Untouched_def Sort_fields split: option.splits)

lemma TickBatchParallel_Flags: "Flags (Batch (TickBatchParallel h t b)) = Flags b"
  by (simp add: TickBatchParallel_def Let_def Untouched_def Sort_fields TickBatch_Flags)

lemma TickOneBatch_frame:
  "FrameCounter (fst (TickOneBatch h c st)) = FrameCounter (fst st)"
  "GroupedBatches (fst (TickOneBatch h c st)) = GroupedBatches (fst st)"
  "SpatialBatch (fst (TickOneBatch h c st)) = SpatialBatch (fst st)"
  by (simp_all add: TickOneBatch_def Let_def split: option.splits)

lemma TickOneBatch_flags:
  "map_option Flags (Find (TypeBatches (fst (TickOneBatch h c' st))) c)
     = map_option Flags (Find (TypeBatches (fst st)) c)"
proof (cases "Find (TypeBatches (fst st)) c'")
  case None
  then show ?thesis by (simp add: TickOneBatch_def Let_def)
next
  case (Some b)
  then show ?thesis
    by (simp add: TickOneBatch_def Let_def Find_SetValue TickBatch_Flags TickBatchParallel_Flags)
qed

lemma Dispatchable_flags:
  "Dispatchable s c =
     (case map_option Flags (Find (TypeBatches s) c) of
        None \<Rightarrow> False
      | Some f \<Rightarrow> \<not> (EnumHasAnyFlags f LowPrio \<and> FrameCounter s mod 3 \<noteq> 0))"
  by (cases "Find (TypeBatches s) c") (simp_all add: Dispatchable_def)

lemma TickOneBatch_Dispatchable:
  "Dispatchable (fst (TickOneBatch h c' st)) c = Dispatchable (fst st) c"
  by (simp only: Dispatchable_flags TickOneBatch_flags TickOneBatch_frame)

lemma TickOneBatch_log:
  "map DispatchedClass (snd (TickOneBatch h c st)) =
     map DispatchedClass (snd st) @ (if Dispatchable (fst st) c then [c] else [])"
  by (cases "Find (TypeBatches (fst st)) c")
     (simp_all add: TickOneBatch_def Let_def Dispatchable_def)

lemma fold_TickOneBatch:
  "map DispatchedClass (snd (fold (TickOneBatch h) cs st)) =
     map DispatchedClass (snd st) @ filter (Dispatchable (fst st)) cs
   \<and> (\<forall>c. Dispatchable (fst (fold (TickOneBatch h) cs st)) c = Dispatchable (fst st) c)
   \<and> GroupedBatches (fst (fold (TickOneBatch h) cs st)) = GroupedBatches (fst st)
   \<and> FrameCounter (fst (fold (TickOneBatch h) cs st)) = FrameCounter (fst st)"
proof (induction cs arbitrary: st)
  case Nil
  then show ?case by simp
next
  case (Cons c cs)
  have d: "Dispatchable (fst (TickOneBatch h c st)) = Dispatchable (fst st)"
    by (rule ext) (rule TickOneBatch_Dispatchable)
  show ?case
    using Cons [of "TickOneBatch h c st"]
    by (simp add: d TickOneBatch_log TickOneBatch_frame)
qed

lemma TickGroupBatches_log:
  "map DispatchedClass (snd (TickGroupBatches h g st)) =
     map DispatchedClass (snd st) @ filter (Dispatchable (fst st)) (GroupList (fst st) g)
   \<and> (\<forall>c. Dispatchable (fst (TickGroupBatches h g st)) c = Dispatchable (fst st) c)
   \<and> GroupedBatches (fst (TickGroupBatches h g st)) = GroupedBatches (fst st)
   \<and> FrameCounter (fst (TickGroupBatches h g st)) = FrameCounter (fst st)"
proof (cases "Find (GroupedBatches (fst st)) g")
  case None
  then show ?thesis by (simp add: TickGroupBatches_def GroupList_def)
next
  case (Some l)
  then show ?thesis using fold_TickOneBatch [of h l st]
    by (simp add: TickGroupBatches_def GroupList_def)
qed

lemma fold_TickGroupBatches:
  "map DispatchedClass (snd (fold (TickGroupBatches h) gs st)) =
     map DispatchedClass (snd st) @ filter (Dispatchable (fst st)) (concat (map (GroupList (fst st)) gs))
   \<and> FrameCounter (fst (fold (TickGroupBatches h) gs st)) = FrameCounter (fst st)"
proof (induction gs arbitrary: st)
  case Nil
  then show ?case by simp
next
  case (Cons g gs)
  define st1 where "st1 = TickGroupBatches h g st"
  have l: "map DispatchedClass (snd st1) =
     map DispatchedClass (snd st) @ filter (Dispatchable (fst st)) (GroupList (fst st) g)"
    and d: "Dispatchable (fst st1) = Dispatchable (fst st)"
    and g: "GroupedBatches (fst st1) = GroupedBatches (fst st)"
    and f: "FrameCounter (fst st1) = FrameCounter (fst st)"
    using TickGroupBatches_log [of h g st] by (auto simp add: st1_def)
  have gl: "GroupList (fst st1) = GroupList (fst st)"
    by (rule ext) (simp add: GroupList_def g)
  show ?case using Cons [of st1] by (simp add: st1_def [symmetric] l d gl f)
qed

lemma Tick_dispatches:
  "DispatchedClasses (Tick h s) = filter (Dispatchable (BeginFrame h s)) (ListedClasses (BeginFrame h s))"
  using fold_TickGroupBatches [of h TickOrder "(BeginFrame h s, [])"]
  by (simp add: Tick_def Let_def DispatchedClasses_def ListedClasses_def)

lemma AddEntity_frame: "FrameCounter (AddEntity p s) = FrameCounter s"
  by (cases "Deref (TypeBatches s) p") (simp_all add: AddEntity_def Let_def)

lemma RemoveEntity_frame: "FrameCounter (RemoveEntity p s) = FrameCounter s"
  by (cases "Deref (TypeBatches s) p") (simp_all add: RemoveEntity_def Let_def)

lemma AddToBatch_frame: "FrameCounter (AddToBatch c name grp flags fn E s) = FrameCounter s"
  by (simp add: AddToBatch_def Let_def AddEntity_frame)

lemma ProcessRegistration_frame: "FrameCounter (ProcessRegistration h r s) = FrameCounter s"
  by (cases "fst r") (simp_all add: ProcessRegistration_def AddToBatch_frame)

lemma UnregisterFromBatch_frame: "FrameCounter (UnregisterFromBatch q c s) = FrameCounter s"
proof (cases "Find (TypeBatches s) c")
  case None
  then show ?thesis by (simp add: UnregisterFromBatch_def)
next
  case (Some b)
  then show ?thesis
    by (cases "FirstIndexOf q (TickEntities b)")
       (simp_all add: UnregisterFromBatch_def Let_def RemoveEntity_frame)
qed

lemma fold_frame:
  assumes "\<And>x s. FrameCounter (f x s) = FrameCounter s"
  shows "FrameCounter (fold f xs s) = FrameCounter s"
  by (induction xs arbitrary: s) (simp_all add: assms)

lemma ProcessUnregistration_frame: "FrameCounter (ProcessUnregistration h q s) = FrameCounter s"
  by (simp add: ProcessUnregistration_def fold_frame UnregisterFromBatch_frame)

lemma ProcessDeferredOperations_frame: "FrameCounter (ProcessDeferredOperations h s) = FrameCounter s"
  by (simp add: ProcessDeferredOperations_def ProcessDeferredOperationsImpl_def Let_def fold_frame
      ProcessRegistration_frame ProcessUnregistration_frame)

lemma BeginFrame_frame: "FrameCounter (BeginFrame h s) = (FrameCounter s + 1) mod 1000"
  by (simp add: BeginFrame_def SortBatchesByPriority_def UpdateConditionalTicks_def
      ProcessDeferredOperations_frame)

lemma HintEntity_frame: "FrameCounter (HintEntity h c i s) = FrameCounter s"
  by (cases "Deref (TypeBatches s) (EntityAt c i)") (simp_all add: HintEntity_def AddEntity_frame del: Deref.simps)

lemma HintBatch_frame: "FrameCounter (HintBatch h c s) = FrameCounter s"
  by (cases "Find (TypeBatches s) c") (simp_all add: HintBatch_def fold_frame HintEntity_frame)

lemma OptimizeBatches_frame: "FrameCounter (OptimizeBatches h s) = FrameCounter s"
  by (simp add: OptimizeBatches_def Let_def ApplyOptimizationHints_def fold_frame HintBatch_frame
      AnalyzeCurrentState_def)

lemma Tick_frame: "FrameCounter (System (Tick h s)) = (FrameCounter s + 1) mod 1000"
  using fold_TickGroupBatches [of h TickOrder "(BeginFrame h s, [])"]
  by (simp add: Tick_def Let_def OptimizeBatches_frame BeginFrame_frame)

lemma SystemAtFrame_frame:
  "FrameCounter s = 0 \<Longrightarrow> FrameCounter (SystemAtFrame hs s k) = k mod 1000"
proof (induction k)
  case 0
  then show ?case by simp
next
  case (Suc k)
  have "(k mod 1000 + 1) mod 1000 = Suc k mod 1000" by presburger
  then show ?case using Suc by (simp add: Tick_frame)
qed

lemma nine_frames: "(k::nat) < 9 \<Longrightarrow> ((k + 1) mod 1000) mod 3 = 0 \<longleftrightarrow> k \<in> {2, 5, 8}"
proof -
  assume "k < 9"
  then have "k = 0 \<or> k = 1 \<or> k = 2 \<or> k = 3 \<or> k = 4 \<or> k = 5 \<or> k = 6 \<or> k = 7 \<or> k = 8"
    by linarith
  then show ?thesis by (elim disjE) simp_all
qed

text \<open>
  Claim C1, amended. Start from a system whose frame counter is 0, as a fresh system's
  is. \<^verbatim>\<open>Tick\<close> advances the counter before anything else, so in frame \<open>k\<close> (counted from
  0) the batches are dispatched with the counter at \<open>(k + 1) mod 1000\<close>. The batches
  dispatched in that frame are, in order, the listed batches that are not flagged
  low-priority, together with the low-priority ones exactly when that counter is a
  multiple of 3. Over the first nine frames this is so on frames 2, 5 and 8.
\<close>

theorem low_priority_throttle:
  assumes "FrameCounter s = 0"
  shows "FrameCounter (BeginFrame (hs k) (SystemAtFrame hs s k)) = (k + 1) mod 1000
       \<and> DispatchedClasses (Tick (hs k) (SystemAtFrame hs s k))
           = filter (\<lambda>c. case Find (TypeBatches (BeginFrame (hs k) (SystemAtFrame hs s k))) c of
                           None \<Rightarrow> False
                         | Some b \<Rightarrow> \<not> (EnumHasAnyFlags (Flags b) LowPrio
                                         \<and> ((k + 1) mod 1000) mod 3 \<noteq> 0))
               (ListedClasses (BeginFrame (hs k) (SystemAtFrame hs s k)))
       \<and> (k < 9 \<longrightarrow> ((k + 1) mod 1000) mod 3 = 0 \<longleftrightarrow> k \<in> {2, 5, 8})"
proof -
  have c: "FrameCounter (BeginFrame (hs k) (SystemAtFrame hs s k)) = (k + 1) mod 1000"
  proof -
    have "(k mod 1000 + 1) mod 1000 = (k + 1) mod 1000" by presburger
    then show ?thesis using assms by (simp add: BeginFrame_frame SystemAtFrame_frame)
  qed
  have "Dispatchable (BeginFrame (hs k) (SystemAtFrame hs s k)) =
      (\<lambda>c. case Find (TypeBatches (BeginFrame (hs k) (SystemAtFrame hs s k))) c of
                           None \<Rightarrow> False
                         | Some b \<Rightarrow> \<not> (EnumHasAnyFlags (Flags b) LowPrio
                                         \<and> ((k + 1) mod 1000) mod 3 \<noteq> 0))"
    by (rule ext) (simp only: Dispatchable_def c)
  moreover have "k < 9 \<longrightarrow> ((k + 1) mod 1000) mod 3 = 0 \<longleftrightarrow> k \<in> {2, 5, 8}"
    using nine_frames [of k] by blast
  ultimately show ?thesis using c by (simp only: Tick_dispatches simp_thms)
qed

text \<open>The frames of the example run, evaluated one by one.\<close>

lemmas tick_defs =
  Tick_def BeginFrame_def ProcessDeferredOperations_def ProcessDeferredOperationsImpl_def
  ProcessRegistration_def ProcessUnregistration_def AddToBatch_def UnregisterFromBatch_def
  UpdateConditionalTicks_def SortBatchesByPriority_def SortBy_def PtrBefore_def BatchBefore_def
  TickGroupBatches_def TickOneBatch_def TickOrder_def AllGroups_def TickBatch_def TickBatchParallel_def
  Untouched_def SortForCacheLocality_def CanTickInParallel_def EnumHasAnyFlags_def
  UpdateBatchProfilingData_def OptimizeBatches_def DispatchedClasses_def
  RegisterComponent_def IsUnsafeComponent_def InitialSystem_def NewBatch_def ComponentEntityData_def
  DetermineBestTickFunction_def CalculateGridCell_def PackCell_def EntityIsActive_def IsValid_def
  Find_def Let_def DemoHost_def
  FlagNone_def UseParallel_def LowPrio_def HighPrio_def SpatialAware_def Conditional_def

lemma first_frame:
  "Tick DemoHost LowPrioSystem = \<lparr>System = LowPrioRunning 1, Dispatches = [], GridCalls = []\<rparr>"
  by (simp add: LowPrioSystem_def LowPrioRunning_def DemoBatch_def tick_defs)

lemma later_frames:
  "Tick DemoHost (LowPrioRunning 1) =
     \<lparr>System = LowPrioRunning 2, Dispatches = [], GridCalls = []\<rparr>"
  "Tick DemoHost (LowPrioRunning 2) =
     \<lparr>System = LowPrioRunning 3, Dispatches = [\<lparr>DispatchedClass = 1, Path = SequentialPath, Entities = [], Calls = []\<rparr>], GridCalls = []\<rparr>"
  "Tick DemoHost (LowPrioRunning 3) =
     \<lparr>System = LowPrioRunning 4, Dispatches = [], GridCalls = []\<rparr>"
  "Tick DemoHost (LowPrioRunning 4) =
     \<lparr>System = LowPrioRunning 5, Dispatches = [], GridCalls = []\<rparr>"
  "Tick DemoHost (LowPrioRunning 5) =
     \<lparr>System = LowPrioRunning 6, Dispatches = [\<lparr>DispatchedClass = 1, Path = SequentialPath, Entities = [], Calls = []\<rparr>], GridCalls = []\<rparr>"
  "Tick DemoHost (LowPrioRunning 6) =
     \<lparr>System = LowPrioRunning 7, Dispatches = [], GridCalls = []\<rparr>"
  "Tick DemoHost (LowPrioRunning 7) =
     \<lparr>System = LowPrioRunning 8, Dispatches = [], GridCalls = []\<rparr>"
  "Tick DemoHost (LowPrioRunning 8) =
     \<lparr>System = LowPrioRunning 9, Dispatches = [\<lparr>DispatchedClass = 1, Path = SequentialPath, Entities = [], Calls = []\<rparr>], GridCalls = []\<rparr>"
  by (simp_all add: LowPrioRunning_def DemoBatch_def tick_defs)

lemma next_frame:
  "SystemAtFrame hs s k = t \<Longrightarrow> System (Tick (hs k) t) = u \<Longrightarrow> SystemAtFrame hs s (Suc k) = u"
  by simp

lemma low_priority_run:
  "SystemAtFrame (\<lambda>i. DemoHost) LowPrioSystem 0 = LowPrioSystem"
  "SystemAtFrame (\<lambda>i. DemoHost) LowPrioSystem 1 = LowPrioRunning 1"
  "SystemAtFrame (\<lambda>i. DemoHost) LowPrioSystem 2 = LowPrioRunning 2"
  "SystemAtFrame (\<lambda>i. DemoHost) LowPrioSystem 3 = LowPrioRunning 3"
  "SystemAtFrame (\<lambda>i. DemoHost) LowPrioSystem 4 = LowPrioRunning 4"
  "SystemAtFrame (\<lambda>i. DemoHost) LowPrioSystem 5 = LowPrioRunning 5"
  "SystemAtFrame (\<lambda>i. DemoHost) LowPrioSystem 6 = LowPrioRunning 6"
  "SystemAtFrame (\<lambda>i. DemoHost) LowPrioSystem 7 = LowPrioRunning 7"
  "SystemAtFrame (\<lambda>i. DemoHost) LowPrioSystem 8 = LowPrioRunning 8"
proof -
  show "SystemAtFrame (\<lambda>i. DemoHost) LowPrioSystem 0 = LowPrioSystem" by simp
  have a1: "SystemAtFrame (\<lambda>i. DemoHost) LowPrioSystem (Suc 0) = LowPrioRunning 1"
    by (simp add: first_frame)
  have a2: "SystemAtFrame (\<lambda>i. DemoHost) LowPrioSystem (Suc (Suc 0)) = LowPrioRunning 2"
    by (rule next_frame [OF a1]) (simp only: later_frames FrameOutcome.select_convs)
  have a3: "SystemAtFrame (\<lambda>i. DemoHost) LowPrioSystem (Suc (Suc (Suc 0))) = LowPrioRunning 3"
    by (rule next_frame [OF a2]) (simp only: later_frames FrameOutcome.select_convs)
  have a4: "SystemAtFrame (\<lambda>i. DemoHost) LowPrioSystem (Suc (Suc (Suc (Suc 0)))) = LowPrioRunning 4"
    by (rule next_frame [OF a3]) (simp only: later_frames FrameOutcome.select_convs)
  have a5: "SystemAtFrame (\<lambda>i. DemoHost) LowPrioSystem (Suc (Suc (Suc (Suc (Suc 0))))) = LowPrioRunning 5"
    by (rule next_frame [OF a4]) (simp only: later_frames FrameOutcome.select_convs)
  have a6: "SystemAtFrame (\<lambda>i. DemoHost) LowPrioSystem (Suc (Suc (Suc (Suc (Suc (Suc 0)))))) = LowPrioRunning 6"
    by (rule next_frame [OF a5]) (simp only: later_frames FrameOutcome.select_convs)
  have a7: "SystemAtFrame (\<lambda>i. DemoHost) LowPrioSystem (Suc (Suc (Suc (Suc (Suc (Suc (Suc 0))))))) = LowPrioRunning 7"
    by (rule next_frame [OF a6]) (simp only: later_frames FrameOutcome.select_convs)
  have a8: "SystemAtFrame (\<lambda>i. DemoHost) LowPrioSystem (Suc (Suc (Suc (Suc (Suc (Suc (Suc (Suc 0)))))))) = LowPrioRunning 8"
    by (rule next_frame [OF a7]) (simp only: later_frames FrameOutcome.select_convs)
  show "SystemAtFrame (\<lambda>i. DemoHost) LowPrioSystem 1 = LowPrioRunning 1" using a1 by simp
  have n2: "Suc (Suc 0) = (2::nat)" by simp
  show "SystemAtFrame (\<lambda>i. DemoHost) LowPrioSystem 2 = LowPrioRunning 2"
    using a2 by (simp only: n2)
  have n3: "Suc (Suc (Suc 0)) = (3::nat)" by simp
  show "SystemAtFrame (\<lambda>i. DemoHost) LowPrioSystem 3 = LowPrioRunning 3"
    using a3 by (simp only: n3)
  have n4: "Suc (Suc (Suc (Suc 0))) = (4::nat)" by simp
  show "SystemAtFrame (\<lambda>i. DemoHost) LowPrioSystem 4 = LowPrioRunning 4"
    using a4 by (simp only: n4)
  have n5: "Suc (Suc (Suc (Suc (Suc 0)))) = (5::nat)" by simp
  show "SystemAtFrame (\<lambda>i. DemoHost) LowPrioSystem 5 = LowPrioRunning 5"
    using a5 by (simp only: n5)
  have n6: "Suc (Suc (Suc (Suc (Suc (Suc 0))))) = (6::nat)" by simp
  show "SystemAtFrame (\<lambda>i. DemoHost) LowPrioSystem 6 = LowPrioRunning 6"
    using a6 by (simp only: n6)
  have n7: "Suc (Suc (Suc (Suc (Suc (Suc (Suc 0)))))) = (7::nat)" by simp
  show "SystemAtFrame (\<lambda>i. DemoHost) LowPrioSystem 7 = LowPrioRunning 7"
    using a7 by (simp only: n7)
  have n8: "Suc (Suc (Suc (Suc (Suc (Suc (Suc (Suc 0))))))) = (8::nat)" by simp
  show "SystemAtFrame (\<lambda>i. DemoHost) LowPrioSystem 8 = LowPrioRunning 8"
    using a8 by (simp only: n8)
qed

text \<open>Witness: frame 2 of the example run, where the low-priority batch is dispatched.\<close>

theorem low_priority_throttle_witness:
  "FrameCounter LowPrioSystem = 0
   \<and> FrameCounter (BeginFrame DemoHost (SystemAtFrame (\<lambda>i. DemoHost) LowPrioSystem 2)) = 3
   \<and> DispatchedClasses (Tick DemoHost (SystemAtFrame (\<lambda>i. DemoHost) LowPrioSystem 2)) = [1]"
proof -
  have z: "FrameCounter LowPrioSystem = 0"
    by (simp add: LowPrioSystem_def RegisterComponent_def InitialSystem_def DemoHost_def Let_def)
  have "FrameCounter (BeginFrame DemoHost (SystemAtFrame (\<lambda>i. DemoHost) LowPrioSystem 2)) = (2 + 1) mod 1000"
    using low_priority_throttle [OF z, of "\<lambda>i. DemoHost" 2] by blast
  moreover have "DispatchedClasses (Tick DemoHost (SystemAtFrame (\<lambda>i. DemoHost) LowPrioSystem 2)) = [1]"
    by (simp only: list.map low_priority_run later_frames DispatchedClasses_def
      FrameOutcome.select_convs BatchDispatch.select_convs)
  ultimately show ?thesis using z by simp
qed

text \<open>
  Claim C1 as stated fails: it has the low-priority batch ticked on frames 0, 3 and 6 of
  a nine-frame run from a fresh system. The run dispatches the batch of class 1 on frames
  2, 5 and 8 and on no other.
\<close>

theorem low_priority_frames_counterexample:
  "map (\<lambda>k. DispatchedClasses (Tick DemoHost (SystemAtFrame (\<lambda>i. DemoHost) LowPrioSystem k)))
       [0, 1, 2, 3, 4, 5, 6, 7, 8]
   = [[], [], [1], [], [], [1], [], [], [1]]"
  by (simp only: list.map low_priority_run first_frame later_frames DispatchedClasses_def
      FrameOutcome.select_convs BatchDispatch.select_convs)

section \<open>Properties of OptimizeBatches\<close>

text \<open>
  The hints change the flags of a batch only by adding \<^verbatim>\<open>SpatialAware\<close>, and the entities
  of a batch only through the grid cell that \<^verbatim>\<open>AddEntity\<close> writes into a descriptor. A
  property of a batch that neither of these changes is kept.
\<close>

lemma StoreEntity_keeps:
  assumes qe: "\<And>b es. Q (b\<lparr>TickEntities := es\<rparr>) = Q b"
    and "Find m c = Some b" "Q b"
  shows "\<exists>b'. Find (StoreEntity m p e) c = Some b' \<and> Q b'"
proof (cases p)
  case NullEntity
  then show ?thesis using assms by simp
next
  case (EntityAt c0 i)
  show ?thesis
  proof (cases "Find m c0")
    case None
    then show ?thesis using assms EntityAt by simp
  next
    case (Some b0)
    then show ?thesis using assms EntityAt by (auto simp add: Find_SetValue)
  qed
qed

lemma AddEntity_keeps:
  assumes qe: "\<And>b es. Q (b\<lparr>TickEntities := es\<rparr>) = Q b"
    and "Find (TypeBatches s) c = Some b" "Q b"
  shows "\<exists>b'. Find (TypeBatches (AddEntity p s)) c = Some b' \<and> Q b'"
proof (cases "Deref (TypeBatches s) p")
  case None
  then show ?thesis using assms by (simp add: AddEntity_def)
next
  case (Some e)
  show ?thesis
  proof (cases "Object e = None")
    case True
    then show ?thesis using assms Some by (simp add: AddEntity_def)
  next
    case False
    have "\<exists>b'. Find (StoreEntity (TypeBatches s) p
        (e\<lparr>SpatialBucketId := CalculateGridCell (SpatialBatch s) (Position e)\<rparr>)) c = Some b' \<and> Q b'"
      using assms by (rule StoreEntity_keeps)
    then show ?thesis by (simp add: AddEntity_def Let_def Some False)
  qed
qed

lemma HintEntity_keeps:
  assumes qe: "\<And>b es. Q (b\<lparr>TickEntities := es\<rparr>) = Q b"
    and "Find (TypeBatches s) c = Some b" "Q b"
  shows "\<exists>b'. Find (TypeBatches (HintEntity h c0 i s)) c = Some b' \<and> Q b'"
proof (cases "Deref (TypeBatches s) (EntityAt c0 i)")
  case None
  then show ?thesis using assms by (simp add: HintEntity_def del: Deref.simps)
next
  case (Some e)
  have "\<exists>b'. Find (TypeBatches (AddEntity (EntityAt c0 i) s)) c = Some b' \<and> Q b'"
    using assms by (rule AddEntity_keeps)
  then show ?thesis using Some assms by (auto simp add: HintEntity_def simp del: Deref.simps)
qed

lemma fold_keeps:
  assumes step: "\<And>x s b. Find (TypeBatches s) c = Some b \<Longrightarrow> Q b
                   \<Longrightarrow> \<exists>b'. Find (TypeBatches (f x s)) c = Some b' \<and> Q b'"
    and "Find (TypeBatches s) c = Some b" "Q b"
  shows "\<exists>b'. Find (TypeBatches (fold f xs s)) c = Some b' \<and> Q b'"
  using assms(2,3)
proof (induction xs arbitrary: s b)
  case Nil
  then show ?case by simp
next
  case (Cons x xs)
  obtain b1 where "Find (TypeBatches (f x s)) c = Some b1" "Q b1"
    using step [OF Cons.prems] by blast
  then show ?case using Cons.IH by simp
qed

lemma HintBatch_keeps:
  assumes qe: "\<And>b es. Q (b\<lparr>TickEntities := es\<rparr>) = Q b"
    and qs: "\<And>b. Q b \<Longrightarrow> Q (b\<lparr>Flags := Flags b OR SpatialAware\<rparr>)"
    and found: "Find (TypeBatches s) c = Some b" "Q b"
  shows "\<exists>b'. Find (TypeBatches (HintBatch h c0 s)) c = Some b' \<and> Q b'"
proof (cases "Find (TypeBatches s) c0")
  case None
  then show ?thesis using found by (simp add: HintBatch_def)
next
  case (Some b0)
  show ?thesis
  proof (cases "ClassIsValid h c0 \<and> IsSpatialComponent h c0 \<and> \<not> EnumHasAnyFlags (Flags b0) SpatialAware")
    case False
    then show ?thesis using found Some by (auto simp add: HintBatch_def)
  next
    case True
    define s1 where "s1 = s\<lparr>TypeBatches := SetValue (TypeBatches s) c0 (b0\<lparr>Flags := Flags b0 OR SpatialAware\<rparr>),
                 Stats := (Stats s)\<lparr>SpatialBatchCount := SpatialBatchCount (Stats s) + 1\<rparr>\<rparr>"
    have "\<exists>b1. Find (TypeBatches s1) c = Some b1 \<and> Q b1"
      using found Some qs by (auto simp add: s1_def Find_SetValue)
    then obtain b1 where b1: "Find (TypeBatches s1) c = Some b1" "Q b1" by blast
    have "\<exists>b'. Find (TypeBatches (fold (HintEntity h c0) [0 ..< length (TickEntities b0)] s1)) c = Some b' \<and> Q b'"
      using HintEntity_keeps [of Q, OF qe] b1 by (intro fold_keeps [where Q = Q]) blast+
    then show ?thesis using True Some by (simp add: HintBatch_def s1_def)
  qed
qed

lemma ApplyOptimizationHints_keeps:
  assumes qe: "\<And>b es. Q (b\<lparr>TickEntities := es\<rparr>) = Q b"
    and qs: "\<And>b. Q b \<Longrightarrow> Q (b\<lparr>Flags := Flags b OR SpatialAware\<rparr>)"
    and found: "Find (TypeBatches s) c = Some b" "Q b"
  shows "\<exists>b'. Find (TypeBatches (ApplyOptimizationHints h s)) c = Some b' \<and> Q b'"
  unfolding ApplyOptimizationHints_def
  using HintBatch_keeps [of Q, OF qe qs] found by (intro fold_keeps [where Q = Q]) blast+

lemma Find_map_keyed:
  "Find (map (\<lambda>Pair. (fst Pair, g (fst Pair) (snd Pair))) m) c = map_option (g c) (Find m c)"
  by (induction m) (auto simp add: Find_def)

lemma OptimizeBatches_Find:
  "Find (TypeBatches (OptimizeBatches h s)) c =
     map_option (\<lambda>b. if ChildOfCharacterMovement h c then OptimizeCharacterMovementBatch b
                      else if ChildOfAIPerception h c then OptimizeAIPerceptionBatch b else b)
       (Find (TypeBatches (ApplyOptimizationHints h (AnalyzeCurrentState s))) c)"
proof -
  define g where "g = (\<lambda>k b. if ChildOfCharacterMovement h k then OptimizeCharacterMovementBatch b
                      else if ChildOfAIPerception h k then OptimizeAIPerceptionBatch b else b)"
  have "(\<lambda>Pair. if ChildOfCharacterMovement h (fst Pair)
                           then (fst Pair, OptimizeCharacterMovementBatch (snd Pair))
                           else if ChildOfAIPerception h (fst Pair)
                           then (fst Pair, OptimizeAIPerceptionBatch (snd Pair))
                           else Pair)
      = (\<lambda>Pair. (fst Pair, g (fst Pair) (snd Pair)))"
    by (rule ext) (simp add: g_def)
  then have "Find (TypeBatches (OptimizeBatches h s)) c
      = map_option (g c) (Find (TypeBatches (ApplyOptimizationHints h (AnalyzeCurrentState s))) c)"
    by (simp add: OptimizeBatches_def Let_def Find_map_keyed)
  then show ?thesis by (simp add: g_def)
qed

lemma parallel_keeps:
  "CanTickInParallel (b\<lparr>TickEntities := es\<rparr>) = CanTickInParallel b"
  "CanTickInParallel b \<Longrightarrow> CanTickInParallel (b\<lparr>Flags := Flags b OR SpatialAware\<rparr>)"
  by (simp_all add: CanTickInParallel_def has_flag_or_other)

text \<open>
  The whole of \<^verbatim>\<open>OptimizeBatches\<close>: the analysis, the hints, the type-specific steps. A
  batch of more than 10 entities with an average tick time above 1000 ns, of a class that
  is not a character movement component, has the parallel flag set afterwards; a batch of
  fewer than 5 entities has cache-locality sorting disabled afterwards.
\<close>

lemma OptimizeBatches_parallel:
  assumes "Find (TypeBatches s) c = Some b" "AverageTickTimeNs b > 1000" "length (TickEntities b) > 10"
    and "\<not> ChildOfCharacterMovement h c"
  shows "\<exists>b'. Find (TypeBatches (OptimizeBatches h s)) c = Some b' \<and> CanTickInParallel b'"
proof -
  have "Find (TypeBatches (AnalyzeCurrentState s)) c = Some (AnalyzeBatch b)"
    using assms(1) by (simp add: AnalyzeCurrentState_def Find_map_values)
  moreover have "CanTickInParallel (AnalyzeBatch b)" using assms(2,3) by (rule AnalyzeBatch_parallel)
  ultimately obtain b1 where b1: "Find (TypeBatches (ApplyOptimizationHints h (AnalyzeCurrentState s))) c = Some b1"
    "CanTickInParallel b1"
    using ApplyOptimizationHints_keeps [of CanTickInParallel "AnalyzeCurrentState s" c "AnalyzeBatch b" h]
      parallel_keeps by blast
  then show ?thesis using assms(4)
    by (simp add: OptimizeBatches_Find OptimizeAIPerceptionBatch_def CanTickInParallel_def has_flag_or_other)
qed

lemma OptimizeBatches_small:
  assumes "Find (TypeBatches s) c = Some b" "length (TickEntities b) < 5"
  shows "\<exists>b'. Find (TypeBatches (OptimizeBatches h s)) c = Some b' \<and> \<not> bSortByCacheLocality b'"
proof -
  have "Find (TypeBatches (AnalyzeCurrentState s)) c = Some (AnalyzeBatch b)"
    using assms(1) by (simp add: AnalyzeCurrentState_def Find_map_values)
  moreover have "\<not> bSortByCacheLocality (AnalyzeBatch b)" using assms(2) by (rule AnalyzeBatch_small)
  ultimately obtain b1 where b1: "Find (TypeBatches (ApplyOptimizationHints h (AnalyzeCurrentState s))) c = Some b1"
    "\<not> bSortByCacheLocality b1"
    using ApplyOptimizationHints_keeps [of "\<lambda>b. \<not> bSortByCacheLocality b" "AnalyzeCurrentState s" c "AnalyzeBatch b" h]
    by auto
  then show ?thesis
    by (simp add: OptimizeBatches_Find OptimizeAIPerceptionBatch_def OptimizeCharacterMovementBatch_def)
qed

text \<open>
  Claim C5, amended. After one call of \<^verbatim>\<open>OptimizeBatches\<close>, a batch whose average tick
  time was 1500 ns and that held 20 entities has the parallel flag set unless its class
  is a character movement component class; the batch of such a class has the flag
  cleared by the step that forces it to run sequentially. A batch that held 3 entities
  has cache-locality sorting disabled.
\<close>

theorem OptimizeBatches_scenario:
  assumes "Find (TypeBatches s) c = Some b"
  shows "\<exists>b'. Find (TypeBatches (OptimizeBatches h s)) c = Some b'
            \<and> (AverageTickTimeNs b = 1500 \<and> length (TickEntities b) = 20
                 \<and> \<not> ChildOfCharacterMovement h c \<longrightarrow> CanTickInParallel b')
            \<and> (ChildOfCharacterMovement h c \<longrightarrow> \<not> CanTickInParallel b')
            \<and> (length (TickEntities b) = 3 \<longrightarrow> \<not> bSortByCacheLocality b')"
proof -
  define P where "P \<longleftrightarrow> AverageTickTimeNs b = 1500 \<and> length (TickEntities b) = 20"
  define R where "R \<longleftrightarrow> length (TickEntities b) = 3"
  define Q where "Q = (\<lambda>x. (P \<longrightarrow> CanTickInParallel x) \<and> (R \<longrightarrow> \<not> bSortByCacheLocality x))"
  have a: "Find (TypeBatches (AnalyzeCurrentState s)) c = Some (AnalyzeBatch b)"
    using assms by (simp add: AnalyzeCurrentState_def Find_map_values)
  have qa: "Q (AnalyzeBatch b)"
    by (simp add: Q_def P_def R_def AnalyzeBatch_parallel AnalyzeBatch_small)
  have qe: "Q (x\<lparr>TickEntities := es\<rparr>) = Q x" for x es
    by (simp add: Q_def CanTickInParallel_def)
  have qs: "Q x \<Longrightarrow> Q (x\<lparr>Flags := Flags x OR SpatialAware\<rparr>)" for x
    by (simp add: Q_def parallel_keeps)
  obtain b1 where b1: "Find (TypeBatches (ApplyOptimizationHints h (AnalyzeCurrentState s))) c = Some b1"
    and q1: "Q b1"
    using ApplyOptimizationHints_keeps [of Q, OF qe qs a qa] by blast
  define b' where "b' = (if ChildOfCharacterMovement h c then OptimizeCharacterMovementBatch b1
                         else if ChildOfAIPerception h c then OptimizeAIPerceptionBatch b1 else b1)"
  have f: "Find (TypeBatches (OptimizeBatches h s)) c = Some b'"
    by (simp add: OptimizeBatches_Find b1 b'_def)
  have 1: "P \<and> \<not> ChildOfCharacterMovement h c \<longrightarrow> CanTickInParallel b'"
    using q1 by (auto simp add: Q_def b'_def OptimizeAIPerceptionBatch_def CanTickInParallel_def
        has_flag_or_other)
  have 2: "ChildOfCharacterMovement h c \<longrightarrow> \<not> CanTickInParallel b'"
    by (simp add: b'_def OptimizeCharacterMovementBatch_sequential)
  have 3: "R \<longrightarrow> \<not> bSortByCacheLocality b'"
    using q1 by (auto simp add: Q_def b'_def OptimizeAIPerceptionBatch_def
        OptimizeCharacterMovementBatch_def)
  show ?thesis using f 1 2 3 unfolding P_def R_def by blast
qed

text \<open>Witness: both batches of the example system, class 1 not a character movement class.\<close>

theorem OptimizeBatches_scenario_witness:
  "Find (TypeBatches DemoAnalyzeSystem) 1
     = Some ((DemoBatch FlagNone (map (\<lambda>n. DemoEntity n True) [1 ..< 21]))\<lparr>AverageTickTimeNs := 1500\<rparr>)
   \<and> Find (TypeBatches DemoAnalyzeSystem) 2
     = Some (DemoBatch FlagNone [DemoEntity 30 True, DemoEntity 31 True, DemoEntity 32 True])
   \<and> \<not> ChildOfCharacterMovement DemoHost 1
   \<and> (\<exists>b'. Find (TypeBatches (OptimizeBatches DemoHost DemoAnalyzeSystem)) 1 = Some b'
            \<and> CanTickInParallel b')
   \<and> (\<exists>b'. Find (TypeBatches (OptimizeBatches DemoHost DemoAnalyzeSystem)) 2 = Some b'
            \<and> \<not> bSortByCacheLocality b')"
  using OptimizeBatches_scenario [of DemoAnalyzeSystem 1
          "(DemoBatch FlagNone (map (\<lambda>n. DemoEntity n True) [1 ..< 21]))\<lparr>AverageTickTimeNs := 1500\<rparr>"
          DemoHost]
        OptimizeBatches_scenario [of DemoAnalyzeSystem 2
          "DemoBatch FlagNone [DemoEntity 30 True, DemoEntity 31 True, DemoEntity 32 True]" DemoHost]
  by (auto simp add: DemoAnalyzeSystem_def Find_def DemoBatch_def DemoHost_def)

text \<open>
  Claim C5 as stated fails: with class 1 a character movement component class, the batch
  of 20 entities and average tick time 1500 ns does not have the parallel flag set after
  \<^verbatim>\<open>OptimizeBatches\<close>.
\<close>

theorem OptimizeBatches_character_movement_counterexample:
  "map_option AverageTickTimeNs (Find (TypeBatches DemoAnalyzeSystem) 1) = Some 1500
   \<and> map_option (\<lambda>b. length (TickEntities b)) (Find (TypeBatches DemoAnalyzeSystem) 1) = Some 20
   \<and> map_option CanTickInParallel
         (Find (TypeBatches (OptimizeBatches DemoMovementHost DemoAnalyzeSystem)) 1) = Some False"
proof (intro conjI)
  show "map_option AverageTickTimeNs (Find (TypeBatches DemoAnalyzeSystem) 1) = Some 1500"
    by (simp add: DemoAnalyzeSystem_def Find_def)
  show "map_option (\<lambda>b. length (TickEntities b)) (Find (TypeBatches DemoAnalyzeSystem) 1) = Some 20"
    by (simp add: DemoAnalyzeSystem_def Find_def DemoBatch_def)
  have "\<exists>b. Find (TypeBatches (AnalyzeCurrentState DemoAnalyzeSystem)) 1 = Some b"
    by (simp add: AnalyzeCurrentState_def Find_map_values DemoAnalyzeSystem_def Find_def)
  then obtain b0 where "Find (TypeBatches (AnalyzeCurrentState DemoAnalyzeSystem)) 1 = Some b0"
    by blast
  then have "\<exists>b1. Find (TypeBatches (ApplyOptimizationHints DemoMovementHost
      (AnalyzeCurrentState DemoAnalyzeSystem))) 1 = Some b1 \<and> True"
    by (intro ApplyOptimizationHints_keeps [where Q = "\<lambda>b. True"]) simp_all
  then obtain b1 where b1: "Find (TypeBatches (ApplyOptimizationHints DemoMovementHost
      (AnalyzeCurrentState DemoAnalyzeSystem))) 1 = Some b1" by blast
  have cm: "ChildOfCharacterMovement DemoMovementHost 1" by (simp add: DemoMovementHost_def)
  have "Find (TypeBatches (OptimizeBatches DemoMovementHost DemoAnalyzeSystem)) 1
      = Some (OptimizeCharacterMovementBatch b1)"
    unfolding OptimizeBatches_Find b1 using cm by simp
  then show "map_option CanTickInParallel
         (Find (TypeBatches (OptimizeBatches DemoMovementHost DemoAnalyzeSystem)) 1) = Some False"
    by (simp add: OptimizeCharacterMovementBatch_sequential)
qed

end
